theory Spec2Isabelle
  imports Main "HOL-Library.Word"
begin

unbundle bit_operations_syntax

section \<open>The C library functions the parser calls\<close>

text \<open>
  A C string is modelled as a \<open>string\<close>: the characters before the terminating NUL.
  The functions of this section belong to the C library, not to the plugin; they are
  written after ISO C (7.4.1.10 \<open>isspace\<close> in the "C" locale, 7.22.1.4 \<open>strtoull\<close>,
  7.24.5.8 \<open>strtok\<close>, 7.24.5.2 \<open>strchr\<close>).
\<close>

definition isspace :: "char \<Rightarrow> bool" where
  "isspace c \<longleftrightarrow> c = CHR '' '' \<or> (9 \<le> (of_char c :: nat) \<and> (of_char c :: nat) \<le> 13)"

text \<open>The value of a character read as a digit: \<open>0\<close>-\<open>9\<close>, then the letters in either case.\<close>

definition digit_of :: "char \<Rightarrow> nat option" where
  "digit_of c =
     (let k = (of_char c :: nat) in
      if 48 \<le> k \<and> k \<le> 57 then Some (k - 48)
      else if 97 \<le> k \<and> k \<le> 122 then Some (k - 87)
      else if 65 \<le> k \<and> k \<le> 90 then Some (k - 55)
      else None)"

definition is_digit :: "nat \<Rightarrow> char \<Rightarrow> bool" where
  "is_digit base c = (case digit_of c of None \<Rightarrow> False | Some d \<Rightarrow> d < base)"

definition digits_value :: "nat \<Rightarrow> string \<Rightarrow> nat" where
  "digits_value base ds = foldl (\<lambda>acc c. acc * base + the (digit_of c)) 0 ds"

text \<open>
  \<open>strtoull s &endptr 0\<close>: the converted value and what \<open>endptr\<close> points to afterwards.
  White space is skipped, one sign is accepted, the base comes from the prefix
  (\<open>0x\<close>/\<open>0X\<close> followed by a hexadecimal digit: 16; a leading \<open>0\<close>: 8; otherwise 10), and
  the longest run of digits of that base is converted. With no digit nothing is consumed:
  the value is 0 and \<open>endptr\<close> is the start of the string. A value that does not fit
  gives \<open>ULLONG_MAX\<close>; a minus sign negates the value in the unsigned type.
\<close>

definition strtoull :: "string \<Rightarrow> 64 word \<times> string" where
  "strtoull s =
     (let s1 = dropWhile isspace s;
          neg = (s1 \<noteq> [] \<and> hd s1 = CHR ''-'');
          s2 = (if s1 \<noteq> [] \<and> (hd s1 = CHR ''-'' \<or> hd s1 = CHR ''+'') then tl s1 else s1);
          hex = (case s2 of
                   c0 # cx # ch # _ \<Rightarrow>
                     c0 = CHR ''0'' \<and> (cx = CHR ''x'' \<or> cx = CHR ''X'') \<and> is_digit 16 ch
                 | _ \<Rightarrow> False);
          base = (if hex then 16 else if s2 \<noteq> [] \<and> hd s2 = CHR ''0'' then 8 else 10);
          s3 = (if hex then drop 2 s2 else s2);
          ds = takeWhile (is_digit base) s3;
          v = digits_value base ds
      in if ds = [] then (0, s)
         else (if v \<ge> 2 ^ 64 then - 1 else if neg then - (of_nat v) else of_nat v,
               dropWhile (is_digit base) s3))"

text \<open>
  \<open>strtok_r s "," &saveptr\<close> on the text still to be scanned: leading commas are
  skipped; \<open>None\<close> is the NULL of an exhausted string; otherwise the token runs to the
  next comma, which is overwritten, and scanning resumes behind it.
\<close>

definition strtok_r :: "string \<Rightarrow> (string \<times> string) option" where
  "strtok_r s =
     (let s1 = dropWhile (\<lambda>c. c = CHR '','') s in
      if s1 = [] then None
      else Some (takeWhile (\<lambda>c. c \<noteq> CHR '','') s1,
                 drop 1 (dropWhile (\<lambda>c. c \<noteq> CHR '','') s1)))"

section \<open>The core-list parser\<close>

text \<open>\<open>isdup\<close>: is \<open>val\<close> among the first \<open>size\<close> entries of \<open>nums\<close>?\<close>

definition isdup :: "64 word list \<Rightarrow> nat \<Rightarrow> 64 word \<Rightarrow> bool" where
  "isdup nums sz val \<longleftrightarrow> val \<in> set (take sz nums)"

text \<open>
  \<open>strtouint64\<close>: \<open>Some\<close> the number when the string is not empty and \<open>strtoull\<close>
  consumed all of it, \<open>None\<close> for the source's \<open>-EINVAL\<close>.
\<close>

definition strtouint64 :: "string \<Rightarrow> 64 word option" where
  "strtouint64 s =
     (case strtoull s of (n, endptr) \<Rightarrow>
        if \<not> (s \<noteq> [] \<and> endptr = []) then None else Some n)"

text \<open>
  The output array \<open>nums\<close> and the counter \<open>index\<close> are kept together as the list of the
  values stored so far: \<open>index\<close> is its length, \<open>nums[index] = n; index++\<close> appends.
  A step of the parser either goes on with the list or returns from \<open>strlisttonums\<close>
  with the count it reports and the array as it stands.
\<close>

datatype parse_step = Continue "64 word list" | Return nat "64 word list"

text \<open>
  The loop \<open>for (n = start; n <= end; n++)\<close> over 64-bit values; \<open>n + 1\<close> wraps after
  \<open>2^64 - 1\<close>, as \<open>n++\<close> does.
\<close>

function range_loop :: "64 word \<Rightarrow> 64 word \<Rightarrow> 64 word list \<Rightarrow> 32 word \<Rightarrow> parse_step" where
  "range_loop n endv nums maxv =
     (if n \<le> endv then
        (let nums' = (if \<not> isdup nums (length nums) n then nums @ [n] else nums) in
         if length nums' \<ge> unat maxv then Return (length nums') nums'
         else range_loop (n + 1) endv nums' maxv)
      else Continue nums)"
  by pat_completeness auto

text \<open>
  The loop ends although \<open>n\<close> may wrap: while the array holds fewer than \<open>maxv\<close> values,
  fewer than \<open>2^32\<close>, some 64-bit value is not in it yet, and \<open>n\<close> moves towards the
  next such value; storing a value brings the array closer to \<open>maxv\<close>.
\<close>

definition next_free :: "64 word \<Rightarrow> 64 word list \<Rightarrow> nat" where
  "next_free n nums = (LEAST k. n + of_nat k \<notin> set nums)"

lemma set_neq_UNIV_64:
  fixes nums :: "64 word list"
  assumes "length nums < 2 ^ 32"
  shows "\<exists>v. v \<notin> set nums"
proof -
  have "card (set nums) \<le> length nums" by (rule card_length)
  also have "\<dots> < 2 ^ 32" by (rule assms)
  also have "(2::nat) ^ 32 \<le> card (UNIV :: 64 word set)" by (simp add: card_word)
  finally have "set nums \<noteq> UNIV" by auto
  then show ?thesis by auto
qed

lemma next_free_step:
  fixes nums :: "64 word list"
  assumes dup: "n \<in> set nums" and ex: "\<exists>v. v \<notin> set nums"
  shows "next_free (n + 1) nums < next_free n nums"
proof -
  from ex obtain v where v: "v \<notin> set nums" by blast
  have "n + of_nat (unat (v - n)) = v" by simp
  with v have P: "n + of_nat (unat (v - n)) \<notin> set nums" by simp
  define k where "k = next_free n nums"
  have Pk: "n + of_nat k \<notin> set nums"
    unfolding k_def next_free_def by (rule LeastI [where P = "\<lambda>k. n + of_nat k \<notin> set nums", OF P])
  have "k \<noteq> 0" using Pk dup by (cases k) auto
  then obtain j where j: "k = Suc j" by (cases k) auto
  have "n + of_nat k = n + 1 + of_nat j" using j by simp
  with Pk have "n + 1 + of_nat j \<notin> set nums" by simp
  then have "next_free (n + 1) nums \<le> j"
    unfolding next_free_def by (rule Least_le)
  then show ?thesis using j k_def by simp
qed

termination range_loop
proof (relation "measures [\<lambda>(n, e, nums, m). unat m - length nums,
                           \<lambda>(n, e, nums, m). next_free n nums]", goal_cases)
  case 1
  then show ?case by simp
next
  case (2 n e nums m nums')
  show ?case
  proof (cases "isdup nums (length nums) n")
    case True
    then have dup: "n \<in> set nums" by (simp add: isdup_def)
    from True 2 have eq: "nums' = nums" by simp
    have "length nums < unat m" using 2 eq by simp
    moreover have "unat m < 2 ^ 32" using unsigned_less [of m] by simp
    ultimately have "length nums < 2 ^ 32" by simp
    then have "\<exists>v. v \<notin> set nums" by (rule set_neq_UNIV_64)
    with dup have "next_free (n + 1) nums < next_free n nums" by (rule next_free_step)
    then show ?thesis using eq by simp
  next
    case False
    with 2 have app: "nums' = nums @ [n]" by simp
    from 2 have "length nums' < unat m" by simp
    with app have "unat m - length nums' < unat m - length nums" by simp
    then show ?thesis by simp
  qed
qed


text \<open>
  One token of the list, already stripped of leading white space and not empty: the
  body of the parser's loop from \<open>p = strchr(token, '-')\<close> on. With a hyphen the text
  before the first hyphen and the text behind it are converted (the hyphen itself is
  overwritten by NUL), the bounds are put in order, and the range is enumerated; without
  one the token is a single number. A failed conversion is the source's \<open>return (0)\<close>.
\<close>

definition token_step :: "string \<Rightarrow> 64 word list \<Rightarrow> 32 word \<Rightarrow> parse_step" where
  "token_step token nums maxv =
     (if CHR ''-'' \<in> set token then
        (case strtouint64 (takeWhile (\<lambda>c. c \<noteq> CHR ''-'') token) of
           None \<Rightarrow> Return 0 nums
         | Some start \<Rightarrow>
             (case strtouint64 (drop 1 (dropWhile (\<lambda>c. c \<noteq> CHR ''-'') token)) of
                None \<Rightarrow> Return 0 nums
              | Some endv \<Rightarrow>
                  if start > endv then range_loop endv start nums maxv
                  else range_loop start endv nums maxv))
      else
        (case strtouint64 token of
           None \<Rightarrow> Return 0 nums
         | Some val \<Rightarrow>
             (let nums' = (if \<not> isdup nums (length nums) val then nums @ [val] else nums) in
              if length nums' \<ge> unat maxv then Return (length nums') nums'
              else Continue nums')))"

text \<open>
  The \<open>for (;;)\<close> loop of \<open>strlisttonums\<close> on the text \<open>strtok_r\<close> has not scanned yet.
  Leaving the loop by \<open>break\<close> is \<open>Continue\<close> with the array; a \<open>return\<close> inside the loop
  is \<open>Return\<close>.
\<close>

function strlisttonums_loop :: "string \<Rightarrow> 64 word list \<Rightarrow> 32 word \<Rightarrow> parse_step" where
  "strlisttonums_loop s nums maxv =
     (case strtok_r s of
        None \<Rightarrow> Continue nums
      | Some (token0, rest) \<Rightarrow>
          (let token = dropWhile isspace token0 in
           if token = [] then strlisttonums_loop rest nums maxv
           else (case token_step token nums maxv of
                   Return k nums' \<Rightarrow> Return k nums'
                 | Continue nums' \<Rightarrow> strlisttonums_loop rest nums' maxv)))"
  by pat_completeness auto

lemma strtok_r_shorter: "strtok_r s = Some (token, rest) \<Longrightarrow> length rest < length s"
proof -
  assume a: "strtok_r s = Some (token, rest)"
  define s1 where "s1 = dropWhile (\<lambda>c. c = CHR '','') s"
  from a have ne: "s1 \<noteq> []" and rest: "rest = drop 1 (dropWhile (\<lambda>c. c \<noteq> CHR '','') s1)"
    by (auto simp: strtok_r_def s1_def Let_def split: if_splits)
  have "length (dropWhile (\<lambda>c. c \<noteq> CHR '','') s1) \<le> length s1" by (rule length_dropWhile_le)
  with ne have "length rest < length s1" by (cases s1) (auto simp: rest)
  moreover have "length s1 \<le> length s" unfolding s1_def by (rule length_dropWhile_le)
  ultimately show ?thesis by simp
qed

termination strlisttonums_loop
  by (relation "measure (\<lambda>(s, nums, m). length s)") (auto dest: strtok_r_shorter)

text \<open>The two loops are unfolded on demand only.\<close>

declare range_loop.simps [simp del] strlisttonums_loop.simps [simp del]

text \<open>
  \<open>strlisttonums\<close>: \<open>s\<close> may be NULL (\<open>None\<close>); the output array \<open>nums\<close> is the
  caller's local array, never NULL, and holds nothing yet. The first component is the
  function's return value, the number of elements placed into the array (after the
  loop, \<open>index\<close>); the second is the array's filled part.
\<close>

definition strlisttonums :: "string option \<Rightarrow> 32 word \<Rightarrow> nat \<times> 64 word list" where
  "strlisttonums s maxv =
     (case s of
        None \<Rightarrow> (0, [])
      | Some str \<Rightarrow>
          if maxv = 0 then (0, [])
          else (case strlisttonums_loop str [] maxv of
                  Continue nums \<Rightarrow> (length nums, nums)
                | Return k nums \<Rightarrow> (k, nums)))"

text \<open>The sequence a parse produces: the first \<open>n\<close> array entries, \<open>n\<close> the returned count.\<close>

definition parsed :: "nat \<times> 64 word list \<Rightarrow> 64 word list" where
  "parsed r = take (fst r) (snd r)"

text \<open>The array of a step, whichever way the step ends.\<close>

fun arr :: "parse_step \<Rightarrow> 64 word list" where
  "arr (Continue nums) = nums"
| "arr (Return k nums) = nums"

text \<open>
  What holds after a step that started below the capacity: going on, the array is still
  below the capacity; returning, the count is either 0 with the array below the capacity
  (a failed conversion) or the capacity itself with an array of exactly that length.
\<close>

fun within :: "nat \<Rightarrow> parse_step \<Rightarrow> bool" where
  "within m (Continue nums) = (length nums < m)"
| "within m (Return k nums) = (k = 0 \<and> length nums < m \<or> k = m \<and> length nums = m)"









text \<open>Cutting a step down to a smaller capacity \<open>m\<close>.\<close>

definition cut :: "nat \<Rightarrow> parse_step \<Rightarrow> parse_step" where
  "cut m st = (if m \<le> length (arr st) then Return m (take m (arr st)) else st)"

definition RDTMON_MAX_SOCKETS :: nat where "RDTMON_MAX_SOCKETS = 8"
definition RDTMON_MAX_SOCKET_CORES :: nat where "RDTMON_MAX_SOCKET_CORES = 64"
definition RDTMON_MAX_CORES :: nat where
  "RDTMON_MAX_CORES = RDTMON_MAX_SOCKET_CORES * RDTMON_MAX_SOCKETS"


section \<open>Core groups\<close>

text \<open>
  A pointer is an \<open>option\<close>: \<open>None\<close> is NULL, \<open>Some\<close> holds what it points to. The
  array \<open>cores\<close> of a group is the list of its \<open>unsigned\<close> entries; \<open>events\<close> is the
  \<open>enum pqos_mon_event\<close> bit set, a 32-bit value.
\<close>

record rdtmon_core_group =
  desc :: "string option"
  num_cores :: int
  cores :: "32 word list option"
  events :: "32 word"

text \<open>
  The return codes: \<open>-EINVAL\<close>, \<open>-ENOMEM\<close> and the plain \<open>-1\<close>. A function that
  returns \<open>int\<close> returns \<open>Inl\<close> of one of them or \<open>Inr\<close> of its result. Where a function
  can leave defined behaviour (a failed \<open>assert\<close>, an access outside an array, a NULL
  dereference) its result is an \<open>option\<close>, and \<open>None\<close> is that outcome.
\<close>

datatype error = EINVAL | ENOMEM | FAILURE

text \<open>
  Allocation can fail. The outcomes of the allocation calls still to come are part of the
  state: \<open>heap 0\<close> tells whether the next call succeeds.
\<close>

type_synonym heap = "nat \<Rightarrow> bool"

definition malloc :: "heap \<Rightarrow> bool \<times> heap" where
  "malloc h = (h 0, \<lambda>k. h (Suc k))"

text \<open>\<open>strdup\<close>: a copy of the string, or NULL when the allocation fails.\<close>

definition strdup :: "heap \<Rightarrow> string \<Rightarrow> string option \<times> heap" where
  "strdup h s = (case malloc h of (ok, h') \<Rightarrow> (if ok then Some s else None, h'))"

text \<open>
  \<open>cgroup_cmp\<close>: the two loops count the index pairs with equal cores. Reading an entry
  that the array does not have is outside defined behaviour. \<open>found\<close> is an \<open>int\<close> in the
  source; the groups of the table hold at most \<open>RDTMON_MAX_CORES\<close> cores each, so the
  count stays far below \<open>INT_MAX\<close> and is counted here without a bound.
\<close>

definition readable :: "32 word list option \<Rightarrow> int \<Rightarrow> bool" where
  "readable tab sz = (case tab of None \<Rightarrow> False | Some xs \<Rightarrow> sz \<le> int (length xs))"

definition cgroup_cmp :: "rdtmon_core_group \<Rightarrow> rdtmon_core_group \<Rightarrow> int option" where
  "cgroup_cmp cg_a cg_b =
     (let sz_a = num_cores cg_a; sz_b = num_cores cg_b;
          tab_a = cores cg_a; tab_b = cores cg_b
      in if 0 < sz_a \<and> 0 < sz_b \<and> \<not> (readable tab_a sz_a \<and> readable tab_b sz_b) then None
         else
           (let found =
                  fold (\<lambda>i found.
                          fold (\<lambda>j found.
                                  if the tab_a ! i = the tab_b ! j then found + 1 else found)
                               [0..<nat sz_b] found)
                       [0..<nat sz_a] (0::int)
            in Some (if found = 0 then 0
                     else if sz_a = sz_b \<and> sz_b = found then 1
                     else - 1)))"

text \<open>
  \<open>cgroup_set\<close>: \<open>cores_in\<close> is the caller's array of 64-bit values. The assertions on
  \<open>desc\<close> and \<open>num_cores\<close> are kept; each value is cut down to \<open>unsigned\<close>. The pointer
  \<open>cg->cores\<close> is overwritten before the result of \<open>malloc\<close> is looked at.
\<close>

definition cgroup_set ::
  "heap \<Rightarrow> rdtmon_core_group \<Rightarrow> string option \<Rightarrow> 64 word list \<Rightarrow> int
     \<Rightarrow> ((error + unit) \<times> rdtmon_core_group \<times> heap) option" where
  "cgroup_set h cg desc_in cores_in num_cores_in =
     (if desc_in = None \<or> \<not> 0 < num_cores_in then None
      else
        (case malloc h of (ok, h') \<Rightarrow>
           if \<not> ok then Some (Inl ENOMEM, cg\<lparr>cores := None\<rparr>, h')
           else if int (length cores_in) < num_cores_in then None
           else Some (Inr (),
                      cg\<lparr>cores := Some (map ucast (take (nat num_cores_in) cores_in)),
                         num_cores := num_cores_in, desc := desc_in\<rparr>,
                      h')))"

section \<open>Configuration values and header constants\<close>

text \<open>
  The configuration tree of the host (\<open>oconfig_item_t\<close>, declared in collectd's
  \<open>liboconfig\<close>): a key, the values and the children. A value is a string, a number or
  a boolean; only the payload of a string is ever read here.
\<close>

datatype oconfig_value =
  OCONFIG_TYPE_STRING "string option" | OCONFIG_TYPE_NUMBER | OCONFIG_TYPE_BOOLEAN

datatype oconfig_item =
  Oconfig_item (key: string) (values_of: "oconfig_value list") (children: "oconfig_item list")

text \<open>
  Constants of headers that are not among the sources, taken as parameters:
  \<open>DATA_MAX_NAME_LEN\<close> of collectd's \<open>plugin.h\<close> and the event bits of \<open>pqos.h\<close>.
\<close>

record header =
  DATA_MAX_NAME_LEN :: nat
  PQOS_MON_EVENT_L3_OCCUP :: "32 word"
  PQOS_MON_EVENT_LMEM_BW :: "32 word"
  PQOS_MON_EVENT_TMEM_BW :: "32 word"
  PQOS_MON_EVENT_RMEM_BW :: "32 word"
  PQOS_PERF_EVENT_LLC_MISS :: "32 word"
  PQOS_PERF_EVENT_IPC :: "32 word"

text \<open>
  Modelled from the spec: \<open>sstrncpy dest src n\<close> of collectd's \<open>common.c\<close> is not among
  the sources, and the specification says nothing of it; it is taken as the bounded
  copy its name and its size argument say, at most \<open>n - 1\<close> characters and a
  terminating NUL.
\<close>

definition sstrncpy :: "string \<Rightarrow> nat \<Rightarrow> string" where
  "sstrncpy src n = take (n - 1) src"

text \<open>The table of groups, \<open>cgroups[RDTMON_MAX_CORES]\<close>, as a function of the index.\<close>

type_synonym cgroup_table = "nat \<Rightarrow> rdtmon_core_group"

text \<open>
  The loop of \<open>oconfig_to_cgroups\<close> over the values still to be read; \<open>index\<close> counts
  the groups set up so far. The result of \<open>strdup\<close> is not checked by the source, so a
  failed copy reaches the assertion of \<open>cgroup_set\<close>.
\<close>

fun oconfig_to_cgroups_loop ::
  "header \<Rightarrow> oconfig_value list \<Rightarrow> nat \<Rightarrow> nat \<Rightarrow> heap \<Rightarrow> cgroup_table
     \<Rightarrow> ((error + nat) \<times> cgroup_table \<times> heap) option" where
  "oconfig_to_cgroups_loop H [] index maxg h groups = Some (Inr index, groups, h)"
| "oconfig_to_cgroups_loop H (v # vs) index maxg h groups =
     (case v of
        OCONFIG_TYPE_STRING sp \<Rightarrow>
          (case sp of
             None \<Rightarrow> oconfig_to_cgroups_loop H vs index maxg h groups
           | Some str \<Rightarrow>
               if length str = 0 then oconfig_to_cgroups_loop H vs index maxg h groups
               else
                 (let val = sstrncpy str (DATA_MAX_NAME_LEN H);
                      r = strlisttonums (Some val) (of_nat RDTMON_MAX_CORES);
                      n = fst r
                  in if n = 0 then Some (Inl EINVAL, groups, h)
                     else
                       (case strdup h str of (d, h1) \<Rightarrow>
                          if \<not> index < RDTMON_MAX_CORES then None
                          else
                            (case cgroup_set h1 (groups index) d (parsed r) (int n) of
                               None \<Rightarrow> None
                             | Some (Inl e, cg, h2) \<Rightarrow> Some (Inl e, groups(index := cg), h2)
                             | Some (Inr u, cg, h2) \<Rightarrow>
                                 if Suc index \<ge> maxg
                                 then Some (Inr (Suc index), groups(index := cg), h2)
                                 else oconfig_to_cgroups_loop H vs (Suc index) maxg h2
                                        (groups(index := cg))))))
      | _ \<Rightarrow> None)"

definition oconfig_to_cgroups ::
  "header \<Rightarrow> oconfig_item \<Rightarrow> cgroup_table \<Rightarrow> nat \<Rightarrow> heap
     \<Rightarrow> ((error + nat) \<times> cgroup_table \<times> heap) option" where
  "oconfig_to_cgroups H item groups maxg h =
     (if \<not> 0 < maxg then None
      else oconfig_to_cgroups_loop H (values_of item) 0 maxg h groups)"

section \<open>The plugin context\<close>

text \<open>
  What the plugin reads of the structures of \<open>pqos.h\<close>, which is not among the sources:
  of the topology \<open>pqos_cpuinfo\<close> the cores (\<open>num_cores\<close> is the length of the list) with
  their logical identifier \<open>lcore\<close>; of the monitoring capability the \<open>type\<close> of each of
  its \<open>num_events\<close> events; of a \<open>pqos_mon_data\<close> its \<open>values\<close>. A \<open>double\<close> is kept as
  its 64 bits. A block fresh from \<open>malloc\<close> holds nothing yet (\<open>Uninitialised\<close>).
\<close>

type_synonym double = "64 word"

record pqos_coreinfo =
  lcore :: "32 word"

record pqos_cpuinfo =
  cpu_cores :: "pqos_coreinfo list"

record pqos_capability =
  mon_event_types :: "32 word list"

type_synonym pqos_cap = "pqos_capability list"

record pqos_event_values =
  llc :: "64 word"
  mbm_local :: "64 word"
  mbm_total :: "64 word"
  mbm_remote :: "64 word"
  mbm_local_delta :: "64 word"
  mbm_total_delta :: "64 word"
  mbm_remote_delta :: "64 word"
  ipc :: double

datatype pqos_mon_data = Uninitialised | Mon_data (values_of_mon: pqos_event_values)

type_synonym pgroup_table = "nat \<Rightarrow> pqos_mon_data option"

record rdtmon_ctx =
  cgroups :: cgroup_table
  pgroups :: pgroup_table
  num_groups :: int
  pqos_cpu :: "pqos_cpuinfo option"
  pqos_cap :: "pqos_cap option"
  cap_mon :: "pqos_capability option"

text \<open>
  Modelled from the spec: \<open>sfree\<close> is a macro of collectd's \<open>common.h\<close>, which is not
  among the sources; for the release to happen "exactly once" and to be "safe to invoke
  on a table where some slots were never populated", it frees the block and sets the
  pointer to NULL. One pass of the loop of \<open>rdtmon_free_cgroups\<close> on slot \<open>i\<close>, first
  the group, then the whole slot:
\<close>

definition free_cgroup :: "rdtmon_core_group \<Rightarrow> rdtmon_core_group" where
  "free_cgroup cg =
     (let cg1 = (if desc cg \<noteq> None then cg\<lparr>desc := None\<rparr> else cg)
      in if cores cg1 \<noteq> None then cg1\<lparr>cores := None, num_cores := 0\<rparr> else cg1)"

definition free_slot :: "nat \<Rightarrow> rdtmon_ctx \<Rightarrow> rdtmon_ctx" where
  "free_slot i ctx =
     (let ctx1 = ctx\<lparr>cgroups := (cgroups ctx)(i := free_cgroup (cgroups ctx i))\<rparr>
      in if pgroups ctx1 i \<noteq> None then ctx1\<lparr>pgroups := (pgroups ctx1)(i := None)\<rparr>
         else ctx1)"

definition rdtmon_free_cgroups :: "rdtmon_ctx \<Rightarrow> rdtmon_ctx" where
  "rdtmon_free_cgroups ctx = fold free_slot [0..<RDTMON_MAX_CORES] ctx"

text \<open>
  Modelled from the spec: \<open>ssnprintf_alloc\<close> of collectd's \<open>common.c\<close> is not among the
  sources; with the format \<open>%d\<close> it gives the "logical identifier rendered as a decimal
  string" in allocated storage, or NULL when the allocation fails. \<open>%d\<close> prints its
  argument as a signed \<open>int\<close>.
\<close>

fun decimal :: "nat \<Rightarrow> string" where
  "decimal n =
     (if n < 10 then [''0123456789'' ! n]
      else decimal (n div 10) @ [''0123456789'' ! (n mod 10)])"

definition printf_d :: "32 word \<Rightarrow> string" where
  "printf_d x = (if sint x < 0 then CHR ''-'' # decimal (nat (- sint x)) else decimal (nat (sint x)))"

definition ssnprintf_alloc_d :: "heap \<Rightarrow> 32 word \<Rightarrow> string option \<times> heap" where
  "ssnprintf_alloc_d h x = (case malloc h of (ok, h') \<Rightarrow> (if ok then Some (printf_d x) else None, h'))"

text \<open>
  The loop of \<open>rdtmon_default_cgroups\<close> over the cores of the topology still to be
  configured; \<open>i\<close> is the loop counter. The core put into group \<open>i\<close> is \<open>i\<close> itself
  (\<open>uint64_t core = i\<close>), the description comes from \<open>cores[i].lcore\<close>.
\<close>

fun rdtmon_default_cgroups_loop ::
  "pqos_coreinfo list \<Rightarrow> nat \<Rightarrow> heap \<Rightarrow> cgroup_table
     \<Rightarrow> ((error + unit) \<times> cgroup_table \<times> heap) option" where
  "rdtmon_default_cgroups_loop [] i h groups = Some (Inr (), groups, h)"
| "rdtmon_default_cgroups_loop (c # cs) i h groups =
     (let core = (of_nat i :: 64 word) in
      case ssnprintf_alloc_d h (lcore c) of (d, h1) \<Rightarrow>
        if d = None then Some (Inl ENOMEM, groups, h1)
        else if \<not> i < RDTMON_MAX_CORES then None
        else
          (case cgroup_set h1 (groups i) d [core] 1 of
             None \<Rightarrow> None
           | Some (Inl e, cg, h2) \<Rightarrow> Some (Inl e, groups(i := cg), h2)
           | Some (Inr u, cg, h2) \<Rightarrow>
               rdtmon_default_cgroups_loop cs (Suc i) h2 (groups(i := cg))))"

definition rdtmon_default_cgroups ::
  "heap \<Rightarrow> rdtmon_ctx \<Rightarrow> ((error + nat) \<times> rdtmon_ctx \<times> heap) option" where
  "rdtmon_default_cgroups h ctx =
     (case pqos_cpu ctx of
        None \<Rightarrow> None
      | Some cpu \<Rightarrow>
          (case rdtmon_default_cgroups_loop (cpu_cores cpu) 0 h (cgroups ctx) of
             None \<Rightarrow> None
           | Some (Inl e, groups, h') \<Rightarrow> Some (Inl e, ctx\<lparr>cgroups := groups\<rparr>, h')
           | Some (Inr u, groups, h') \<Rightarrow>
               Some (Inr (length (cpu_cores cpu)), ctx\<lparr>cgroups := groups\<rparr>, h')))"

section \<open>Applying the configuration\<close>

text \<open>
  The inner loop of the validation, \<open>for (j = 0; j < i; j++)\<close>: does a group before
  group \<open>i\<close> compare with it as anything but 0?
\<close>

fun cmp_earlier :: "cgroup_table \<Rightarrow> nat \<Rightarrow> nat list \<Rightarrow> bool option" where
  "cmp_earlier groups i [] = Some False"
| "cmp_earlier groups i (j # js) =
     (case cgroup_cmp (groups j) (groups i) of
        None \<Rightarrow> None
      | Some found \<Rightarrow> if found \<noteq> 0 then Some True else cmp_earlier groups i js)"

text \<open>
  The outer loop, \<open>for (i = 0; i < n; i++)\<close>, over the indices still to be visited:
  compare with the earlier groups, assign the event mask, allocate the monitoring data.
\<close>

fun validate_groups ::
  "32 word \<Rightarrow> nat list \<Rightarrow> heap \<Rightarrow> rdtmon_ctx
     \<Rightarrow> ((error + unit) \<times> rdtmon_ctx \<times> heap) option" where
  "validate_groups ev [] h ctx = Some (Inr (), ctx, h)"
| "validate_groups ev (i # is) h ctx =
     (if \<not> i < RDTMON_MAX_CORES then None
      else
        (case cmp_earlier (cgroups ctx) i [0..<i] of
           None \<Rightarrow> None
         | Some True \<Rightarrow> Some (Inl EINVAL, rdtmon_free_cgroups ctx, h)
         | Some False \<Rightarrow>
             (let ctx1 = ctx\<lparr>cgroups := (cgroups ctx)(i := (cgroups ctx i)\<lparr>events := ev\<rparr>)\<rparr> in
              case malloc h of (ok, h1) \<Rightarrow>
                if \<not> ok
                then Some (Inl ENOMEM,
                           rdtmon_free_cgroups (ctx1\<lparr>pgroups := (pgroups ctx1)(i := None)\<rparr>), h1)
                else validate_groups ev is h1
                       (ctx1\<lparr>pgroups := (pgroups ctx1)(i := Some Uninitialised)\<rparr>))))"

text \<open>The events of the platform: every advertised type or-ed together, LLC-miss removed.\<close>

definition available_events :: "header \<Rightarrow> pqos_capability \<Rightarrow> 32 word" where
  "available_events H cm =
     (fold (\<lambda>ty events. events OR ty) (mon_event_types cm) 0)
       AND NOT (PQOS_PERF_EVENT_LLC_MISS H)"

definition is_string :: "oconfig_value \<Rightarrow> bool" where
  "is_string v = (case v of OCONFIG_TYPE_STRING s \<Rightarrow> True | _ \<Rightarrow> False)"

text \<open>
  The first part of \<open>rdtmon_config_cgroups\<close>, up to the point where the groups are
  built: the explicit groups, or the default ones when there is none. On an error the
  table has been freed.
\<close>

definition build_cgroups ::
  "header \<Rightarrow> oconfig_item \<Rightarrow> heap \<Rightarrow> rdtmon_ctx
     \<Rightarrow> ((error + nat) \<times> rdtmon_ctx \<times> heap) option" where
  "build_cgroups H item h ctx =
     (case oconfig_to_cgroups H item (cgroups ctx) RDTMON_MAX_CORES h of
        None \<Rightarrow> None
      | Some (Inl e, groups, h1) \<Rightarrow>
          Some (Inl EINVAL, rdtmon_free_cgroups (ctx\<lparr>cgroups := groups\<rparr>), h1)
      | Some (Inr n, groups, h1) \<Rightarrow>
          if n = 0 then
            (case rdtmon_default_cgroups h1 (ctx\<lparr>cgroups := groups\<rparr>) of
               None \<Rightarrow> None
             | Some (Inl e, ctx2, h2) \<Rightarrow> Some (Inl e, rdtmon_free_cgroups ctx2, h2)
             | Some (Inr n', ctx2, h2) \<Rightarrow> Some (Inr n', ctx2, h2))
          else Some (Inr n, ctx\<lparr>cgroups := groups\<rparr>, h1))"

definition rdtmon_config_cgroups ::
  "header \<Rightarrow> oconfig_item option \<Rightarrow> heap \<Rightarrow> rdtmon_ctx
     \<Rightarrow> ((error + unit) \<times> rdtmon_ctx \<times> heap) option" where
  "rdtmon_config_cgroups H item h ctx =
     (case item of
        None \<Rightarrow> Some (Inl EINVAL, ctx, h)
      | Some it \<Rightarrow>
          if \<not> list_all is_string (values_of it) then Some (Inl EINVAL, ctx, h)
          else
            (case build_cgroups H it h ctx of
               None \<Rightarrow> None
             | Some (Inl e, ctx1, h1) \<Rightarrow> Some (Inl e, ctx1, h1)
             | Some (Inr n, ctx1, h1) \<Rightarrow>
                 (case cap_mon ctx1 of
                    None \<Rightarrow> None
                  | Some cm \<Rightarrow>
                      validate_groups (available_events H cm) [0..<n] h1
                        (ctx1\<lparr>num_groups := int n\<rparr>))))"

section \<open>The capability provider, the metric sink and the entry points\<close>

text \<open>
  The PQoS library is outside the plugin. Its functions are parameters: each works on
  the library's own state \<open>'p\<close> and returns a status, what it stored through its
  pointer arguments, and the new state. The plugin tells \<open>PQOS_RETVAL_OK\<close> and
  \<open>PQOS_RETVAL_PARAM\<close> from the other codes.
\<close>

datatype pqos_retval =
  PQOS_RETVAL_OK | PQOS_RETVAL_ERROR | PQOS_RETVAL_PARAM | PQOS_RETVAL_RESOURCE

record 'p pqos_library =
  pqos_init :: "'p \<Rightarrow> pqos_retval \<times> 'p"
  pqos_fini :: "'p \<Rightarrow> pqos_retval \<times> 'p"
  pqos_cap_get :: "'p \<Rightarrow> pqos_retval \<times> pqos_cap option \<times> pqos_cpuinfo option \<times> 'p"
  pqos_cap_get_type :: "'p \<Rightarrow> pqos_cap option \<Rightarrow> pqos_retval \<times> pqos_capability option \<times> 'p"
  pqos_mon_start ::
    "'p \<Rightarrow> int \<Rightarrow> 32 word list option \<Rightarrow> 32 word \<Rightarrow> string option \<Rightarrow> pqos_mon_data option
       \<Rightarrow> pqos_retval \<times> pqos_mon_data option \<times> 'p"
  pqos_mon_poll :: "'p \<Rightarrow> pgroup_table \<Rightarrow> 32 word \<Rightarrow> pqos_retval \<times> pgroup_table \<times> 'p"

text \<open>
  A metric record as handed to the host's \<open>plugin_dispatch_values\<close>. A gauge is a
  \<open>double\<close>: either converted from a 64-bit counter or the library's own \<open>double\<close>.
\<close>

datatype gauge = Gauge_of_uint64 "64 word" | Gauge_of_double double

record value_list =
  vl_values :: "gauge list"
  vl_host :: string
  vl_plugin :: string
  vl_plugin_instance :: string
  vl_type :: string

text \<open>
  The state the entry points work on: the global pointer \<open>g_rdtmon\<close>, the allocator, the
  library's state, the host name \<open>hostname_g\<close> and the records dispatched so far.
\<close>

record 'p world =
  g_rdtmon :: "rdtmon_ctx option"
  mem :: heap
  provider :: 'p
  hostname_g :: string
  dispatched :: "value_list list"

definition RDTMON_PLUGIN :: string where
  "RDTMON_PLUGIN = ''rdtmon''"

text \<open>
  Modelled from the spec: \<open>plugin_dispatch_values\<close> belongs to the host and is not among
  the sources; the metric sink "receives emitted records", here in the order they are
  emitted.
\<close>

definition plugin_dispatch_values :: "value_list \<Rightarrow> value_list list \<Rightarrow> value_list list" where
  "plugin_dispatch_values vl out = out @ [vl]"

text \<open>\<open>snprintf(buf, n, "[%s]", cgroup)\<close>: the text, cut to \<open>n - 1\<close> characters.\<close>

definition bracketed :: "nat \<Rightarrow> string \<Rightarrow> string" where
  "bracketed n cgroup = take (n - 1) (''['' @ cgroup @ '']'')"

definition rdtmon_submit_gauge ::
  "header \<Rightarrow> string \<Rightarrow> string option \<Rightarrow> string \<Rightarrow> gauge \<Rightarrow> value_list list
     \<Rightarrow> value_list list option" where
  "rdtmon_submit_gauge H host cgroup ty val out =
     (case cgroup of
        None \<Rightarrow> None
      | Some cg \<Rightarrow>
          Some (plugin_dispatch_values
                  \<lparr>vl_values = [val],
                   vl_host = sstrncpy host (DATA_MAX_NAME_LEN H),
                   vl_plugin = sstrncpy RDTMON_PLUGIN (DATA_MAX_NAME_LEN H),
                   vl_plugin_instance = bracketed (DATA_MAX_NAME_LEN H) cg,
                   vl_type = sstrncpy ty (DATA_MAX_NAME_LEN H)\<rparr> out))"

definition rdtmon_submit_mbm ::
  "header \<Rightarrow> string \<Rightarrow> string option \<Rightarrow> pqos_event_values \<Rightarrow> value_list list
     \<Rightarrow> value_list list option" where
  "rdtmon_submit_mbm H host cgroup pv out =
     (case cgroup of
        None \<Rightarrow> None
      | Some cg \<Rightarrow>
          Some (plugin_dispatch_values
                  \<lparr>vl_values = [Gauge_of_uint64 (mbm_local pv), Gauge_of_uint64 (mbm_remote pv),
                                Gauge_of_uint64 (mbm_total pv), Gauge_of_uint64 (mbm_local_delta pv),
                                Gauge_of_uint64 (mbm_remote_delta pv),
                                Gauge_of_uint64 (mbm_total_delta pv)],
                   vl_host = sstrncpy host (DATA_MAX_NAME_LEN H),
                   vl_plugin = sstrncpy RDTMON_PLUGIN (DATA_MAX_NAME_LEN H),
                   vl_plugin_instance = bracketed (DATA_MAX_NAME_LEN H) cg,
                   vl_type = sstrncpy ''mbm'' (DATA_MAX_NAME_LEN H)\<rparr> out))"

text \<open>
  The body of the loop of \<open>rdtmon_read\<close> for one group and its monitoring data. The
  values are read only for the events of the mask; reading them from a block that was
  never filled is outside defined behaviour.
\<close>

definition submit_group ::
  "header \<Rightarrow> string \<Rightarrow> rdtmon_core_group \<Rightarrow> pqos_mon_data \<Rightarrow> value_list list
     \<Rightarrow> value_list list option" where
  "submit_group H host cg md out =
     (let mbm_events = PQOS_MON_EVENT_LMEM_BW H OR PQOS_MON_EVENT_TMEM_BW H
                         OR PQOS_MON_EVENT_RMEM_BW H
      in Option.bind
           (if events cg AND PQOS_MON_EVENT_L3_OCCUP H \<noteq> 0
            then (case md of
                    Uninitialised \<Rightarrow> None
                  | Mon_data pv \<Rightarrow>
                      rdtmon_submit_gauge H host (desc cg) ''llc'' (Gauge_of_uint64 (llc pv)) out)
            else Some out)
           (\<lambda>out1.
              Option.bind
                (if events cg AND PQOS_PERF_EVENT_IPC H \<noteq> 0
                 then (case md of
                         Uninitialised \<Rightarrow> None
                       | Mon_data pv \<Rightarrow>
                           rdtmon_submit_gauge H host (desc cg) ''ipc'' (Gauge_of_double (ipc pv)) out1)
                 else Some out1)
                (\<lambda>out2.
                   if events cg AND mbm_events \<noteq> 0
                   then (case md of
                           Uninitialised \<Rightarrow> None
                         | Mon_data pv \<Rightarrow> rdtmon_submit_mbm H host (desc cg) pv out2)
                   else Some out2)))"

fun rdtmon_read_loop ::
  "header \<Rightarrow> string \<Rightarrow> rdtmon_ctx \<Rightarrow> nat list \<Rightarrow> value_list list \<Rightarrow> value_list list option" where
  "rdtmon_read_loop H host ctx [] out = Some out"
| "rdtmon_read_loop H host ctx (i # is) out =
     (if \<not> i < RDTMON_MAX_CORES then None
      else
        (case pgroups ctx i of
           None \<Rightarrow> None
         | Some md \<Rightarrow>
             (case submit_group H host (cgroups ctx i) md out of
                None \<Rightarrow> None
              | Some out' \<Rightarrow> rdtmon_read_loop H host ctx is out')))"

text \<open>
  \<open>rdtmon_read\<close>: without a context \<open>-EINVAL\<close>; one bulk poll; on its failure \<open>-1\<close>;
  otherwise the records of every group.
\<close>

definition rdtmon_read ::
  "header \<Rightarrow> 'p pqos_library \<Rightarrow> 'p world \<Rightarrow> ((error + unit) \<times> 'p world) option" where
  "rdtmon_read H P w =
     (case g_rdtmon w of
        None \<Rightarrow> Some (Inl EINVAL, w)
      | Some ctx \<Rightarrow>
          (case pqos_mon_poll P (provider w) (pgroups ctx) (word_of_int (num_groups ctx)) of
             (ret, pg, p') \<Rightarrow>
               (let ctx1 = ctx\<lparr>pgroups := pg\<rparr>;
                    w1 = w\<lparr>g_rdtmon := Some ctx1, provider := p'\<rparr>
                in if ret \<noteq> PQOS_RETVAL_OK then Some (Inl FAILURE, w1)
                   else
                     (case rdtmon_read_loop H (hostname_g w1) ctx1
                             [0..<nat (num_groups ctx1)] (dispatched w1) of
                        None \<Rightarrow> None
                      | Some out \<Rightarrow> Some (Inr (), w1\<lparr>dispatched := out\<rparr>)))))"

text \<open>The context after \<open>memset(g_rdtmon, 0, sizeof(rdtmon_ctx_t))\<close>.\<close>

definition zero_ctx :: rdtmon_ctx where
  "zero_ctx =
     \<lparr>cgroups = (\<lambda>i. \<lparr>desc = None, num_cores = 0, cores = None, events = 0\<rparr>),
      pgroups = (\<lambda>i. None), num_groups = 0,
      pqos_cpu = None, pqos_cap = None, cap_mon = None\<rparr>"

text \<open>
  \<open>rdtmon_preinit\<close>. The two error labels are the two helper values: label 2 shuts the
  library down first, both drop the context.
\<close>

definition rdtmon_preinit :: "'p pqos_library \<Rightarrow> 'p world \<Rightarrow> (error + unit) \<times> 'p world" where
  "rdtmon_preinit P w =
     (if g_rdtmon w \<noteq> None then (Inr (), w)
      else
        (case malloc (mem w) of (ok, h1) \<Rightarrow>
           if \<not> ok then (Inl ENOMEM, w\<lparr>mem := h1\<rparr>)
           else
             (let error1 = (\<lambda>p. (Inl FAILURE, w\<lparr>g_rdtmon := None, mem := h1, provider := p\<rparr>));
                  error2 = (\<lambda>p. error1 (snd (pqos_fini P p)));
                  p0 = snd (pqos_fini P (provider w))
              in case pqos_init P p0 of (ret1, p1) \<Rightarrow>
                   if ret1 \<noteq> PQOS_RETVAL_OK then error1 p1
                   else
                     (case pqos_cap_get P p1 of (ret2, cap, cpu, p2) \<Rightarrow>
                        if ret2 \<noteq> PQOS_RETVAL_OK then error2 p2
                        else
                          (case pqos_cap_get_type P p2 cap of (ret3, cm, p3) \<Rightarrow>
                             if ret3 = PQOS_RETVAL_PARAM then error2 p3
                             else if cm = None then error2 p3
                             else (Inr (),
                                   w\<lparr>g_rdtmon :=
                                        Some (zero_ctx\<lparr>pqos_cpu := cpu, pqos_cap := cap,
                                                        cap_mon := cm\<rparr>),
                                      mem := h1, provider := p3\<rparr>))))))"





text \<open>\<open>rdtmon_init\<close>: the pre-initialisation, then monitoring is started group by group.\<close>

fun rdtmon_init_loop ::
  "'p pqos_library \<Rightarrow> nat list \<Rightarrow> rdtmon_ctx \<Rightarrow> 'p \<Rightarrow> ((error + unit) \<times> rdtmon_ctx \<times> 'p) option" where
  "rdtmon_init_loop P [] ctx p = Some (Inr (), ctx, p)"
| "rdtmon_init_loop P (i # is) ctx p =
     (if \<not> i < RDTMON_MAX_CORES then None
      else
        (let cg = cgroups ctx i in
         case pqos_mon_start P p (num_cores cg) (cores cg) (events cg) (desc cg) (pgroups ctx i) of
           (ret, md, p') \<Rightarrow>
             (let ctx' = ctx\<lparr>pgroups := (pgroups ctx)(i := md)\<rparr> in
              if ret \<noteq> PQOS_RETVAL_OK then Some (Inl FAILURE, ctx', p')
              else rdtmon_init_loop P is ctx' p')))"

definition rdtmon_init :: "'p pqos_library \<Rightarrow> 'p world \<Rightarrow> ((error + unit) \<times> 'p world) option" where
  "rdtmon_init P w =
     (case rdtmon_preinit P w of
        (Inl e, w1) \<Rightarrow> Some (Inl e, w1)
      | (Inr u, w1) \<Rightarrow>
          (case g_rdtmon w1 of
             None \<Rightarrow> None
           | Some ctx \<Rightarrow>
               (case rdtmon_init_loop P [0..<nat (num_groups ctx)] ctx (provider w1) of
                  None \<Rightarrow> None
                | Some (r, ctx', p') \<Rightarrow> Some (r, w1\<lparr>g_rdtmon := Some ctx', provider := p'\<rparr>))))"

section \<open>A sample platform\<close>

text \<open>
  Concrete values to run the model on: the constants as the headers of the PQoS library
  and of collectd define them, a topology of four cores, a monitoring capability that
  advertises every event, and a library whose state counts the calls made to it.
\<close>

definition sample_header :: header where
  "sample_header =
     \<lparr>DATA_MAX_NAME_LEN = 128,
      PQOS_MON_EVENT_L3_OCCUP = 1, PQOS_MON_EVENT_LMEM_BW = 2, PQOS_MON_EVENT_TMEM_BW = 4,
      PQOS_MON_EVENT_RMEM_BW = 8, PQOS_PERF_EVENT_LLC_MISS = 0x4000,
      PQOS_PERF_EVENT_IPC = 0x8000\<rparr>"

definition sample_cpu :: pqos_cpuinfo where
  "sample_cpu = \<lparr>cpu_cores = [\<lparr>lcore = 0\<rparr>, \<lparr>lcore = 1\<rparr>, \<lparr>lcore = 2\<rparr>, \<lparr>lcore = 3\<rparr>]\<rparr>"

definition sample_cap_mon :: pqos_capability where
  "sample_cap_mon = \<lparr>mon_event_types = [1, 2, 4, 8, 0x4000, 0x8000]\<rparr>"

definition sample_values :: pqos_event_values where
  "sample_values =
     \<lparr>llc = 2097152, mbm_local = 10, mbm_total = 30, mbm_remote = 20, mbm_local_delta = 1,
      mbm_total_delta = 3, mbm_remote_delta = 2, ipc = 0\<rparr>"

definition sample_library :: "nat pqos_library" where
  "sample_library =
     \<lparr>pqos_init = (\<lambda>p. (PQOS_RETVAL_OK, Suc p)),
      pqos_fini = (\<lambda>p. (PQOS_RETVAL_OK, Suc p)),
      pqos_cap_get = (\<lambda>p. (PQOS_RETVAL_OK, Some [sample_cap_mon], Some sample_cpu, Suc p)),
      pqos_cap_get_type = (\<lambda>p cap. (PQOS_RETVAL_OK, Some sample_cap_mon, Suc p)),
      pqos_mon_start = (\<lambda>p n cs ev d md. (PQOS_RETVAL_OK, Some (Mon_data sample_values), Suc p)),
      pqos_mon_poll =
        (\<lambda>p pg n. (PQOS_RETVAL_OK,
                    (\<lambda>i. if i < unat n then Some (Mon_data sample_values) else pg i), Suc p))\<rparr>"

text \<open>The same library with a bulk poll that fails.\<close>

definition failing_library :: "nat pqos_library" where
  "failing_library =
     sample_library\<lparr>pqos_mon_poll := (\<lambda>p pg n. (PQOS_RETVAL_ERROR, pg, Suc p))\<rparr>"

text \<open>The state before any entry point has run, and one with a single group \<open>0\<close>.\<close>

definition initial_world :: "nat world" where
  "initial_world =
     \<lparr>g_rdtmon = None, mem = (\<lambda>k. True), provider = 0, hostname_g = ''localhost'',
      dispatched = []\<rparr>"

definition one_group_ctx :: rdtmon_ctx where
  "one_group_ctx =
     zero_ctx\<lparr>cgroups := (cgroups zero_ctx)
                  (0 := \<lparr>desc = Some ''0'', num_cores = 1, cores = Some [0], events = 0x800F\<rparr>),
              pgroups := (pgroups zero_ctx)(0 := Some Uninitialised),
              num_groups := 1,
              pqos_cpu := Some sample_cpu, pqos_cap := Some [sample_cap_mon],
              cap_mon := Some sample_cap_mon\<rparr>"

definition one_group_world :: "nat world" where
  "one_group_world = initial_world\<lparr>g_rdtmon := Some one_group_ctx\<rparr>"

text \<open>
  The context after a successful pre-initialisation on the sample platform, and blocks
  \<open>Cores\<close> with two disjoint groups and with two overlapping ones.
\<close>

definition sample_ctx :: rdtmon_ctx where
  "sample_ctx =
     zero_ctx\<lparr>pqos_cpu := Some sample_cpu, pqos_cap := Some [sample_cap_mon],
              cap_mon := Some sample_cap_mon\<rparr>"

definition cores_item :: "string list \<Rightarrow> oconfig_item" where
  "cores_item vs = Oconfig_item ''Cores'' (map (\<lambda>s. OCONFIG_TYPE_STRING (Some s)) vs) []"

definition sample_group :: "32 word list \<Rightarrow> rdtmon_core_group" where
  "sample_group cs = \<lparr>desc = Some ''g'', num_cores = int (length cs), cores = Some cs, events = 0\<rparr>"

text \<open>A group as \<open>cgroup_set\<close> leaves it: a description and a non-empty array of cores.\<close>

definition built :: "rdtmon_core_group \<Rightarrow> bool" where
  "built cg \<longleftrightarrow>
     desc cg \<noteq> None \<and>
     (case cores cg of None \<Rightarrow> False | Some cs \<Rightarrow> cs \<noteq> [] \<and> num_cores cg = int (length cs))"

section \<open>The parser on concrete expressions\<close>

lemmas parser_defs =
  strlisttonums_def strtok_r_def token_step_def strtouint64_def strtoull_def
  is_digit_def digit_of_def digits_value_def isspace_def isdup_def parsed_def

lemmas parser_eval = parser_defs range_loop.simps strlisttonums_loop.simps

lemmas max_cores_eval =
  RDTMON_MAX_CORES_def RDTMON_MAX_SOCKET_CORES_def RDTMON_MAX_SOCKETS_def

text \<open>
  C2, as stated, fails: with the capacity the plugin uses, the expression
  \<open>1,3,5-8,10,0x10-12\<close> does not parse to \<open>[1,3,5,6,7,8,10,16,17,18]\<close>. Each bound of a
  range is converted on its own, so in \<open>0x10-12\<close> the first bound is hexadecimal (16)
  and the second decimal (12).
\<close>

theorem C2_parse_example_counterexample:
  "parsed (strlisttonums (Some ''1,3,5-8,10,0x10-12'') (of_nat RDTMON_MAX_CORES))
     \<noteq> [1, 3, 5, 6, 7, 8, 10, 16, 17, 18]"
  by (simp add: parser_eval max_cores_eval)

text \<open>
  C2, amended: for every capacity of at least 12, the expression \<open>1,3,5-8,10,0x10-12\<close>
  parses to exactly \<open>[1,3,5,6,7,8,10,12,13,14,15,16]\<close>, in that order: the range
  \<open>0x10-12\<close> runs from 16 down to 12, is put in ascending order and yields 12 to 16.
\<close>

theorem C2_parse_example:
  assumes "12 \<le> unat maxv"
  shows "parsed (strlisttonums (Some ''1,3,5-8,10,0x10-12'') maxv)
           = [1, 3, 5, 6, 7, 8, 10, 12, 13, 14, 15, 16]"
proof -
  from assms have nz: "maxv \<noteq> 0" by auto
  have le: "\<And>k. k < 12 \<Longrightarrow> \<not> unat maxv \<le> k" using assms by simp
  show ?thesis using nz assms by (cases "unat maxv \<le> 12") (simp_all add: parser_eval le)
qed

theorem C2_parse_example_witness:
  "parsed (strlisttonums (Some ''1,3,5-8,10,0x10-12'') (of_nat RDTMON_MAX_CORES))
     = [1, 3, 5, 6, 7, 8, 10, 12, 13, 14, 15, 16]"
  using C2_parse_example [of "of_nat RDTMON_MAX_CORES"] by (simp add: max_cores_eval)


section \<open>The parser and its capacity\<close>

lemma loop_None:
  "strtok_r s = None \<Longrightarrow> strlisttonums_loop s nums maxv = Continue nums"
  by (subst strlisttonums_loop.simps) simp

lemma loop_skip:
  "strtok_r s = Some (token0, rest) \<Longrightarrow> dropWhile isspace token0 = [] \<Longrightarrow>
   strlisttonums_loop s nums maxv = strlisttonums_loop rest nums maxv"
  by (subst strlisttonums_loop.simps) (simp add: Let_def)

lemma loop_token:
  "strtok_r s = Some (token0, rest) \<Longrightarrow> dropWhile isspace token0 \<noteq> [] \<Longrightarrow>
   strlisttonums_loop s nums maxv =
     (case token_step (dropWhile isspace token0) nums maxv of
        Return k nums' \<Rightarrow> Return k nums'
      | Continue nums' \<Rightarrow> strlisttonums_loop rest nums' maxv)"
  by (subst strlisttonums_loop.simps) (auto simp: Let_def)

lemma range_loop_within:
  "length nums < unat maxv \<Longrightarrow> within (unat maxv) (range_loop n e nums maxv)"
proof (induction n e nums maxv rule: range_loop.induct)
  case (1 n e nums maxv)
  define nums' where "nums' = (if \<not> isdup nums (length nums) n then nums @ [n] else nums)"
  have le: "length nums' \<le> Suc (length nums)" by (simp add: nums'_def)
  show ?case
  proof (cases "n \<le> e")
    case False
    then show ?thesis using 1 by (simp add: range_loop.simps)
  next
    case True
    show ?thesis
    proof (cases "length nums' \<ge> unat maxv")
      case full: True
      with le "1.prems" have "length nums' = unat maxv" by simp
      with True full show ?thesis
        by (subst range_loop.simps) (simp add: nums'_def Let_def)
    next
      case notfull: False
      then have lt: "length nums' < unat maxv" by simp
      from "1.IH" [OF True nums'_def notfull lt]
      show ?thesis using True notfull
        by (subst range_loop.simps) (simp add: nums'_def Let_def)
    qed
  qed
qed

lemma token_step_within:
  "length nums < unat maxv \<Longrightarrow> within (unat maxv) (token_step token nums maxv)"
  by (auto simp: token_step_def Let_def range_loop_within split: option.splits)

lemma strlisttonums_loop_within:
  "length nums < unat maxv \<Longrightarrow> within (unat maxv) (strlisttonums_loop s nums maxv)"
proof (induction s nums maxv rule: strlisttonums_loop.induct)
  case (1 s nums maxv)
  show ?case
  proof (cases "strtok_r s")
    case None
    then show ?thesis using 1 by (simp add: loop_None)
  next
    case (Some p)
    obtain token0 rest where p: "p = (token0, rest)" by (cases p)
    note S = Some [unfolded p]
    define token where "token = dropWhile isspace token0"
    show ?thesis
    proof (cases "token = []")
      case True
      from "1.IH"(1) [OF Some p [symmetric] token_def True "1.prems"]
      show ?thesis by (simp add: loop_skip [OF S True [unfolded token_def]])
    next
      case False
      note L = loop_token [OF S False [unfolded token_def], of nums maxv, folded token_def]
      from token_step_within [OF "1.prems"]
      have w: "within (unat maxv) (token_step token nums maxv)" .
      show ?thesis
      proof (cases "token_step token nums maxv")
        case (Return k nums')
        with w show ?thesis by (simp add: L)
      next
        case (Continue nums')
        with w have lt: "length nums' < unat maxv" by simp
        from "1.IH"(2) [OF Some p [symmetric] token_def False Continue lt]
        show ?thesis by (simp add: L Continue)
      qed
    qed
  qed
qed

lemma strtok_r_comma: "strtok_r (CHR '','' # t) = strtok_r t"
  by (simp add: strtok_r_def)


lemma strtok_r_None_append:
  "strtok_r s = None \<Longrightarrow> strtok_r (s @ CHR '','' # t) = strtok_r t"
proof -
  assume "strtok_r s = None"
  then have "dropWhile (\<lambda>c. c = CHR '','') s = []"
    by (simp add: strtok_r_def Let_def split: if_splits)
  then have "\<forall>c\<in>set s. c = CHR '',''" by (simp add: dropWhile_eq_Nil_conv)
  then have "dropWhile (\<lambda>c. c = CHR '','') (s @ CHR '','' # t) = dropWhile (\<lambda>c. c = CHR '','') t"
    by (simp add: dropWhile_append)
  then show ?thesis by (simp add: strtok_r_def)
qed

lemma strtok_r_Some_append:
  assumes "strtok_r s = Some (token, rest)"
  shows "\<exists>rest'. strtok_r (s @ CHR '','' # t) = Some (token, rest') \<and>
                 strtok_r rest' = strtok_r (rest @ CHR '','' # t)"
proof -
  define s1 where "s1 = dropWhile (\<lambda>c. c = CHR '','') s"
  from assms have ne: "s1 \<noteq> []" and tok: "token = takeWhile (\<lambda>c. c \<noteq> CHR '','') s1"
    and rest: "rest = drop 1 (dropWhile (\<lambda>c. c \<noteq> CHR '','') s1)"
    by (auto simp: strtok_r_def s1_def Let_def split: if_splits)
  from ne have ex: "\<exists>c\<in>set s. \<not> c = CHR '',''"
    by (auto simp: s1_def dropWhile_eq_Nil_conv)
  then have d: "dropWhile (\<lambda>c. c = CHR '','') (s @ CHR '','' # t) = s1 @ CHR '','' # t"
    by (auto simp: s1_def dropWhile_append)
  show ?thesis
  proof (cases "\<forall>c\<in>set s1. c \<noteq> CHR '',''")
    case True
    have t1: "takeWhile (\<lambda>c. c \<noteq> CHR '','') (s1 @ CHR '','' # t) = s1"
      using True by (simp add: takeWhile_append)
    have t2: "dropWhile (\<lambda>c. c \<noteq> CHR '','') (s1 @ CHR '','' # t) = CHR '','' # t"
      using True by (simp add: dropWhile_append)
    have t3: "takeWhile (\<lambda>c. c \<noteq> CHR '','') s1 = s1"
      using True by (simp add: takeWhile_eq_all_conv)
    have t4: "dropWhile (\<lambda>c. c \<noteq> CHR '','') s1 = []"
      using True by (simp add: dropWhile_eq_Nil_conv)
    have "token = s1" by (simp only: tok t3)
    moreover have "rest = []" by (simp add: rest t4)
    moreover have "strtok_r (s @ CHR '','' # t) = Some (s1, t)"
      unfolding strtok_r_def d Let_def t1 t2 by simp
    ultimately show ?thesis by (simp add: strtok_r_comma)
  next
    case False
    then have ex1: "\<exists>c\<in>set s1. \<not> c \<noteq> CHR '',''" by simp
    then have t1: "takeWhile (\<lambda>c. c \<noteq> CHR '','') (s1 @ CHR '','' # t) = takeWhile (\<lambda>c. c \<noteq> CHR '','') s1"
      and t2: "dropWhile (\<lambda>c. c \<noteq> CHR '','') (s1 @ CHR '','' # t)
         = dropWhile (\<lambda>c. c \<noteq> CHR '','') s1 @ CHR '','' # t"
      by (auto simp: takeWhile_append dropWhile_append)
    from ex1 have t3: "dropWhile (\<lambda>c. c \<noteq> CHR '','') s1 \<noteq> []"
      by (auto simp: dropWhile_eq_Nil_conv)
    have "strtok_r (s @ CHR '','' # t) = Some (token, rest @ CHR '','' # t)"
      unfolding strtok_r_def d Let_def t1 t2 tok rest using t3
      by (cases "dropWhile (\<lambda>c. c \<noteq> CHR '','') s1") simp_all
    then show ?thesis by simp
  qed
qed

lemma strlisttonums_loop_cong:
  "strtok_r s = strtok_r s' \<Longrightarrow> strlisttonums_loop s nums maxv = strlisttonums_loop s' nums maxv"
  by (simp add: strlisttonums_loop.simps [of s] strlisttonums_loop.simps [of s'])

text \<open>Text behind a comma is scanned only when the text before it did not end the parse.\<close>

lemma strlisttonums_loop_append:
  "strlisttonums_loop (s @ CHR '','' # t) nums maxv =
     (case strlisttonums_loop s nums maxv of
        Return k nums' \<Rightarrow> Return k nums'
      | Continue nums' \<Rightarrow> strlisttonums_loop t nums' maxv)"
proof (induction s nums maxv rule: strlisttonums_loop.induct)
  case (1 s nums maxv)
  show ?case
  proof (cases "strtok_r s")
    case None
    have "strlisttonums_loop (s @ CHR '','' # t) nums maxv = strlisttonums_loop t nums maxv"
      by (rule strlisttonums_loop_cong) (rule strtok_r_None_append [OF None])
    then show ?thesis by (simp add: loop_None [OF None])
  next
    case (Some p)
    obtain token0 rest where p: "p = (token0, rest)" by (cases p)
    note S = Some [unfolded p]
    define token where "token = dropWhile isspace token0"
    from strtok_r_Some_append [OF S, of t] obtain rest' where
      r1: "strtok_r (s @ CHR '','' # t) = Some (token0, rest')" and
      r2: "strtok_r rest' = strtok_r (rest @ CHR '','' # t)" by blast
    have r3: "\<And>nums. strlisttonums_loop rest' nums maxv
                       = strlisttonums_loop (rest @ CHR '','' # t) nums maxv"
      by (rule strlisttonums_loop_cong) (rule r2)
    show ?thesis
    proof (cases "token = []")
      case True
      note T = True [unfolded token_def]
      from "1.IH"(1) [OF Some p [symmetric] token_def True]
      show ?thesis by (simp add: loop_skip [OF S T] loop_skip [OF r1 T] r3)
    next
      case False
      note F = False [unfolded token_def]
      show ?thesis
      proof (cases "token_step token nums maxv")
        case (Return k nums')
        then show ?thesis
          by (simp add: loop_token [OF S F] loop_token [OF r1 F] token_def [symmetric])
      next
        case (Continue nums')
        from "1.IH"(2) [OF Some p [symmetric] token_def False Continue]
        show ?thesis using Continue
          by (simp add: loop_token [OF S F] loop_token [OF r1 F] token_def [symmetric] r3)
      qed
    qed
  qed
qed


lemma range_loop_extends:
  "take (length nums) (arr (range_loop n e nums maxv)) = nums \<and>
   length nums \<le> length (arr (range_loop n e nums maxv))"
proof (induction n e nums maxv rule: range_loop.induct)
  case (1 n e nums maxv)
  define nums' where "nums' = (if \<not> isdup nums (length nums) n then nums @ [n] else nums)"
  have ext: "take (length nums) nums' = nums" "length nums \<le> length nums'"
    by (simp_all add: nums'_def)
  show ?case
  proof (cases "n \<le> e")
    case False
    then show ?thesis by (simp add: range_loop.simps)
  next
    case True
    show ?thesis
    proof (cases "length nums' \<ge> unat maxv")
      case full: True
      with True ext show ?thesis
        by (subst (1 2) range_loop.simps) (simp add: nums'_def [symmetric] Let_def)
    next
      case notfull: False
      from "1.IH" [OF True nums'_def notfull]
      have IH: "take (length nums') (arr (range_loop (n + 1) e nums' maxv)) = nums'"
        "length nums' \<le> length (arr (range_loop (n + 1) e nums' maxv))" by simp_all
      have r: "range_loop n e nums maxv = range_loop (n + 1) e nums' maxv"
        using True notfull by (subst range_loop.simps) (simp add: nums'_def [symmetric] Let_def)
      have "take (length nums) (arr (range_loop (n + 1) e nums' maxv))
              = take (length nums) (take (length nums') (arr (range_loop (n + 1) e nums' maxv)))"
        using ext(2) by (simp add: min_def)
      also have "\<dots> = nums" using IH(1) ext(1) by simp
      finally show ?thesis using IH(2) ext(2) by (simp add: r)
    qed
  qed
qed


lemma take_extends:
  assumes "take (length nums') xs = nums'" "length nums' \<le> length xs"
      and "take (length nums) nums' = nums" "length nums \<le> length nums'"
  shows "take (length nums) xs = nums \<and> length nums \<le> length xs"
proof -
  have "take (length nums) xs = take (length nums) (take (length nums') xs)"
    using assms(4) by (simp add: min_def)
  then show ?thesis using assms by simp
qed

lemma token_step_extends:
  "take (length nums) (arr (token_step token nums maxv)) = nums \<and>
   length nums \<le> length (arr (token_step token nums maxv))"
  by (auto simp: token_step_def Let_def range_loop_extends split: option.splits)

lemma strlisttonums_loop_extends:
  "take (length nums) (arr (strlisttonums_loop s nums maxv)) = nums \<and>
   length nums \<le> length (arr (strlisttonums_loop s nums maxv))"
proof (induction s nums maxv rule: strlisttonums_loop.induct)
  case (1 s nums maxv)
  show ?case
  proof (cases "strtok_r s")
    case None
    then show ?thesis by (simp add: loop_None)
  next
    case (Some p)
    obtain token0 rest where p: "p = (token0, rest)" by (cases p)
    note S = Some [unfolded p]
    define token where "token = dropWhile isspace token0"
    show ?thesis
    proof (cases "token = []")
      case True
      from "1.IH"(1) [OF Some p [symmetric] token_def True]
      show ?thesis by (simp add: loop_skip [OF S True [unfolded token_def]])
    next
      case False
      note L = loop_token [OF S False [unfolded token_def], of nums maxv, folded token_def]
      note E = token_step_extends [of nums token maxv]
      show ?thesis
      proof (cases "token_step token nums maxv")
        case (Return k nums')
        with E show ?thesis by (simp add: L)
      next
        case (Continue nums')
        with E have e: "take (length nums) nums' = nums" "length nums \<le> length nums'" by simp_all
        from "1.IH"(2) [OF Some p [symmetric] token_def False Continue]
        have "take (length nums') (arr (strlisttonums_loop rest nums' maxv)) = nums'"
          "length nums' \<le> length (arr (strlisttonums_loop rest nums' maxv))" by simp_all
        from take_extends [OF this e] show ?thesis by (simp add: L Continue)
      qed
    qed
  qed
qed

lemma cut_extends:
  assumes "take (length nums') (arr st) = nums'" "length nums' \<le> length (arr st)" "m \<le> length nums'"
  shows "cut m st = Return m (take m nums')"
proof -
  have "take m (arr st) = take m (take (length nums') (arr st))"
    using assms(3) by (simp add: min_def)
  then show ?thesis using assms by (simp add: cut_def)
qed

lemma range_loop_cut:
  "length nums < unat maxv \<Longrightarrow> unat maxv \<le> unat maxv' \<Longrightarrow>
   range_loop n e nums maxv = cut (unat maxv) (range_loop n e nums maxv')"
proof (induction n e nums maxv' rule: range_loop.induct)
  case (1 n e nums maxv')
  define nums' where "nums' = (if \<not> isdup nums (length nums) n then nums @ [n] else nums)"
  have le: "length nums' \<le> Suc (length nums)" by (simp add: nums'_def)
  show ?case
  proof (cases "n \<le> e")
    case False
    then show ?thesis using "1.prems" by (simp add: range_loop.simps cut_def)
  next
    case True
    show ?thesis
    proof (cases "length nums' \<ge> unat maxv")
      case full: True
      with le "1.prems" have len: "length nums' = unat maxv" by simp
      have l: "range_loop n e nums maxv = Return (unat maxv) nums'"
        using True full len by (subst range_loop.simps) (simp add: nums'_def [symmetric] Let_def)
      show ?thesis
      proof (cases "length nums' \<ge> unat maxv'")
        case True': True
        with len "1.prems" have "unat maxv' = unat maxv" by simp
        then have "range_loop n e nums maxv' = Return (unat maxv) nums'"
          using True True' len
          by (subst range_loop.simps) (simp add: nums'_def [symmetric] Let_def)
        then show ?thesis using l len by (simp add: cut_def)
      next
        case False
        then have "range_loop n e nums maxv' = range_loop (n + 1) e nums' maxv'"
          using True by (subst range_loop.simps) (simp add: nums'_def [symmetric] Let_def)
        moreover have "cut (unat maxv) (range_loop (n + 1) e nums' maxv')
                         = Return (unat maxv) (take (unat maxv) nums')"
          using range_loop_extends [of nums' "n + 1" e maxv'] len
          by (intro cut_extends) simp_all
        ultimately show ?thesis using l len by simp
      qed
    next
      case notfull: False
      then have lt: "length nums' < unat maxv" by simp
      with "1.prems" have nf': "\<not> unat maxv' \<le> length nums'" by simp
      have l: "range_loop n e nums maxv = range_loop (n + 1) e nums' maxv"
        using True notfull by (subst range_loop.simps) (simp add: nums'_def [symmetric] Let_def)
      have r: "range_loop n e nums maxv' = range_loop (n + 1) e nums' maxv'"
        using True nf' by (subst range_loop.simps) (simp add: nums'_def [symmetric] Let_def)
      from "1.IH" [OF True nums'_def nf' lt "1.prems"(2)] show ?thesis by (simp add: l r)
    qed
  qed
qed

lemma token_step_cut:
  assumes "length nums < unat maxv" "unat maxv \<le> unat maxv'"
  shows "token_step token nums maxv = cut (unat maxv) (token_step token nums maxv')"
proof -
  have single: "\<And>v. (let nums' = (if \<not> isdup nums (length nums) v then nums @ [v] else nums) in
              if length nums' \<ge> unat maxv then Return (length nums') nums' else Continue nums')
          = cut (unat maxv)
              (let nums' = (if \<not> isdup nums (length nums) v then nums @ [v] else nums) in
               if length nums' \<ge> unat maxv' then Return (length nums') nums' else Continue nums')"
    using assms by (auto simp: cut_def Let_def)
  have fail: "Return 0 nums = cut (unat maxv) (Return 0 nums)"
    using assms by (simp add: cut_def)
  show ?thesis
    unfolding token_step_def
    using fail single range_loop_cut [OF assms]
    by (auto split: option.splits)
qed

lemma strlisttonums_loop_cut:
  "length nums < unat maxv \<Longrightarrow> unat maxv \<le> unat maxv' \<Longrightarrow>
   strlisttonums_loop s nums maxv = cut (unat maxv) (strlisttonums_loop s nums maxv')"
proof (induction s nums maxv' rule: strlisttonums_loop.induct)
  case (1 s nums maxv')
  show ?case
  proof (cases "strtok_r s")
    case None
    then show ?thesis using "1.prems" by (simp add: loop_None cut_def)
  next
    case (Some p)
    obtain token0 rest where p: "p = (token0, rest)" by (cases p)
    note S = Some [unfolded p]
    define token where "token = dropWhile isspace token0"
    show ?thesis
    proof (cases "token = []")
      case True
      from "1.IH"(1) [OF Some p [symmetric] token_def True "1.prems"]
      show ?thesis by (simp add: loop_skip [OF S True [unfolded token_def]])
    next
      case False
      note L = loop_token [OF S False [unfolded token_def], folded token_def]
      note C = token_step_cut [OF "1.prems", of token]
      show ?thesis
      proof (cases "token_step token nums maxv'")
        case (Return k nums')
        then show ?thesis using C by (auto simp: L cut_def)
      next
        case (Continue nums')
        show ?thesis
        proof (cases "unat maxv \<le> length nums'")
          case True
          with C Continue have "token_step token nums maxv = Return (unat maxv) (take (unat maxv) nums')"
            by (simp add: cut_def)
          moreover have "cut (unat maxv) (strlisttonums_loop rest nums' maxv')
                           = Return (unat maxv) (take (unat maxv) nums')"
            using strlisttonums_loop_extends [of nums' rest maxv'] True
            by (intro cut_extends) simp_all
          ultimately show ?thesis by (simp add: L Continue)
        next
          case False
          then have lt: "length nums' < unat maxv" by simp
          with C Continue have "token_step token nums maxv = Continue nums'"
            by (simp add: cut_def)
          moreover note "1.IH"(2) [OF Some p [symmetric] token_def \<open>token \<noteq> []\<close> Continue lt "1.prems"(2)]
          ultimately show ?thesis by (simp add: L Continue)
        qed
      qed
    qed
  qed
qed



text \<open>
  C7: for every expression and every capacity \<open>maxv > 0\<close>, the count returned and the
  array never exceed \<open>maxv\<close>. When the count is \<open>maxv\<close>, the result is a success whose
  values are the whole array, and whatever follows behind a further comma is dropped:
  the result is that of the expression up to there. And the result under a capacity is
  the partial result accumulated so far: whenever the expression parses successfully
  under a capacity \<open>maxv'\<close> at least as large, the parse under \<open>maxv\<close> returns the first
  \<open>maxv\<close> of those values (all of them when there are fewer), so the parser stopped at
  the value that filled the array, also in the middle of a range.
\<close>

theorem C7_capacity_truncation:
  assumes "maxv \<noteq> 0"
  shows "fst (strlisttonums (Some s) maxv) \<le> unat maxv \<and>
         length (snd (strlisttonums (Some s) maxv)) \<le> unat maxv \<and>
         (fst (strlisttonums (Some s) maxv) = unat maxv \<longrightarrow>
            parsed (strlisttonums (Some s) maxv) = snd (strlisttonums (Some s) maxv) \<and>
            (\<forall>t. strlisttonums (Some (s @ CHR '','' # t)) maxv = strlisttonums (Some s) maxv)) \<and>
         (\<forall>maxv'. unat maxv \<le> unat maxv' \<and> fst (strlisttonums (Some s) maxv') \<noteq> 0 \<longrightarrow>
            fst (strlisttonums (Some s) maxv) = min (unat maxv) (fst (strlisttonums (Some s) maxv')) \<and>
            parsed (strlisttonums (Some s) maxv)
              = take (unat maxv) (parsed (strlisttonums (Some s) maxv')))"
proof -
  from assms have pos: "length ([] :: 64 word list) < unat maxv"
    by (simp add: unat_gt_0)
  note W = strlisttonums_loop_within [OF pos, of s]
  have def: "\<And>s m. m \<noteq> 0 \<Longrightarrow> strlisttonums (Some s) m =
               (case strlisttonums_loop s [] m of
                  Continue nums \<Rightarrow> (length nums, nums) | Return k nums \<Rightarrow> (k, nums))"
    by (simp add: strlisttonums_def)
  have bound: "fst (strlisttonums (Some s) maxv) \<le> unat maxv \<and>
               length (snd (strlisttonums (Some s) maxv)) \<le> unat maxv"
    using W by (cases "strlisttonums_loop s [] maxv") (auto simp: def [OF assms])
  have full: "fst (strlisttonums (Some s) maxv) = unat maxv \<longrightarrow>
            parsed (strlisttonums (Some s) maxv) = snd (strlisttonums (Some s) maxv) \<and>
            (\<forall>t. strlisttonums (Some (s @ CHR '','' # t)) maxv = strlisttonums (Some s) maxv)"
  proof
    assume f: "fst (strlisttonums (Some s) maxv) = unat maxv"
    then obtain nums where r: "strlisttonums_loop s [] maxv = Return (unat maxv) nums"
      and len: "length nums = unat maxv"
      using W pos by (cases "strlisttonums_loop s [] maxv") (auto simp: def [OF assms])
    have "\<And>t. strlisttonums_loop (s @ CHR '','' # t) [] maxv = Return (unat maxv) nums"
      by (simp add: strlisttonums_loop_append r)
    then show "parsed (strlisttonums (Some s) maxv) = snd (strlisttonums (Some s) maxv) \<and>
            (\<forall>t. strlisttonums (Some (s @ CHR '','' # t)) maxv = strlisttonums (Some s) maxv)"
      using r len by (simp add: def [OF assms] parsed_def)
  qed
  have mono: "\<forall>maxv'. unat maxv \<le> unat maxv' \<and> fst (strlisttonums (Some s) maxv') \<noteq> 0 \<longrightarrow>
            fst (strlisttonums (Some s) maxv) = min (unat maxv) (fst (strlisttonums (Some s) maxv')) \<and>
            parsed (strlisttonums (Some s) maxv)
              = take (unat maxv) (parsed (strlisttonums (Some s) maxv'))"
  proof (intro allI impI)
    fix maxv'
    assume a: "unat maxv \<le> unat maxv' \<and> fst (strlisttonums (Some s) maxv') \<noteq> 0"
    then have le: "unat maxv \<le> unat maxv'" and nz: "fst (strlisttonums (Some s) maxv') \<noteq> 0"
      by simp_all
    from le assms have nz': "maxv' \<noteq> 0" by (auto simp: unat_gt_0 [symmetric])
    then have pos': "length ([] :: 64 word list) < unat maxv'" by (simp add: unat_gt_0)
    note W' = strlisttonums_loop_within [OF pos', of s]
    note C = strlisttonums_loop_cut [OF pos le, of s]
    show "fst (strlisttonums (Some s) maxv) = min (unat maxv) (fst (strlisttonums (Some s) maxv')) \<and>
          parsed (strlisttonums (Some s) maxv)
              = take (unat maxv) (parsed (strlisttonums (Some s) maxv'))"
    proof (cases "strlisttonums_loop s [] maxv'")
      case (Continue nums')
      then show ?thesis using C
        by (auto simp: def [OF assms] def [OF nz'] cut_def parsed_def min_def)
    next
      case (Return k nums')
      with nz have "k \<noteq> 0" by (simp add: def [OF nz'])
      with W' Return have "k = unat maxv'" "length nums' = unat maxv'" by simp_all
      then show ?thesis using C Return le
        by (auto simp: def [OF assms] def [OF nz'] cut_def parsed_def min_def)
    qed
  qed
  from bound full mono show ?thesis by blast
qed


text \<open>
  C7 on \<open>0-9,20\<close>: with capacity 3 the parse stops inside the range with \<open>[0,1,2]\<close>, a
  later token (even an invalid one) changes nothing, and the result is the beginning of
  what capacity 12 gives.
\<close>

theorem C7_capacity_truncation_witness:
  "strlisttonums (Some ''0-9,20'') 3 = (3, [0, 1, 2]) \<and>
   strlisttonums (Some ''0-9,20,abc'') 3 = (3, [0, 1, 2]) \<and>
   parsed (strlisttonums (Some ''0-9,20'') 12) = [0, 1, 2, 3, 4, 5, 6, 7, 8, 9, 20] \<and>
   parsed (strlisttonums (Some ''0-9,20'') 3)
     = take 3 (parsed (strlisttonums (Some ''0-9,20'') 12))"
proof -
  have nz: "(3 :: 32 word) \<noteq> 0" by simp
  have a: "strlisttonums (Some ''0-9,20'') 3 = (3, [0, 1, 2])"
    by (simp add: parser_eval)
  have b: "strlisttonums (Some ''0-9,20'') 12 = (11, [0, 1, 2, 3, 4, 5, 6, 7, 8, 9, 20])"
    by (simp add: parser_eval)
  note T = C7_capacity_truncation [OF nz, of "''0-9,20''"]
  have f3: "fst (strlisttonums (Some ''0-9,20'') 3) = unat (3 :: 32 word)" by (simp add: a)
  note T3 = T [THEN conjunct2, THEN conjunct2, THEN conjunct1, rule_format, OF f3]
  from T3 [THEN conjunct2, rule_format, of "''abc''"]
  have c: "strlisttonums (Some ''0-9,20,abc'') 3 = (3, [0, 1, 2])" by (simp add: a)
  have le: "unat (3 :: 32 word) \<le> unat (12 :: 32 word) \<and> fst (strlisttonums (Some ''0-9,20'') 12) \<noteq> 0"
    by (simp add: b)
  from T [THEN conjunct2, THEN conjunct2, THEN conjunct2, rule_format, of 12, OF le]
  have d: "parsed (strlisttonums (Some ''0-9,20'') 3)
     = take 3 (parsed (strlisttonums (Some ''0-9,20'') 12))" by simp
  have e: "parsed (strlisttonums (Some ''0-9,20'') 12) = [0, 1, 2, 3, 4, 5, 6, 7, 8, 9, 20]"
    by (simp add: b parsed_def)
  show ?thesis by (rule conjI [OF a conjI [OF c conjI [OF e d]]])
qed


section \<open>Malformed tokens\<close>




















section \<open>The poll entry point\<close>

lemmas sample_eval =
  rdtmon_read_def one_group_world_def one_group_ctx_def initial_world_def sample_library_def
  failing_library_def zero_ctx_def Let_def max_cores_eval submit_group_def sample_header_def
  rdtmon_submit_gauge_def rdtmon_submit_mbm_def plugin_dispatch_values_def bracketed_def
  sstrncpy_def RDTMON_PLUGIN_def sample_values_def

text \<open>
  C10: when \<open>rdtmon_read\<close> is invoked while the global context is absent, it returns
  \<open>-EINVAL\<close> and leaves the whole state as it was: no record is dispatched, and the
  state of the library is untouched whatever the library's functions are, so no poll
  call was made.
\<close>

theorem C10_read_uninitialised:
  assumes "g_rdtmon w = None"
  shows "rdtmon_read H P w = Some (Inl EINVAL, w)"
  using assms by (simp add: rdtmon_read_def)

text \<open>The statement of C10 at the state before any entry point has run.\<close>

theorem C10_read_uninitialised_witness:
  "g_rdtmon initial_world = None \<and>
   rdtmon_read sample_header sample_library initial_world = Some (Inl EINVAL, initial_world)"
  using C10_read_uninitialised [of initial_world sample_header sample_library]
  by (simp add: initial_world_def)

text \<open>
  C5: when the single bulk poll of a cycle does not return \<open>PQOS_RETVAL_OK\<close>,
  \<open>rdtmon_read\<close> returns the failure \<open>-1\<close> and the dispatched records are those of
  before: nothing is emitted for any group. Conversely, whenever a call of \<open>rdtmon_read\<close>
  has dispatched something, the context existed and the bulk poll had succeeded.
\<close>

theorem C5_poll_failure:
  "(\<forall>ctx. g_rdtmon w = Some ctx \<and>
          fst (pqos_mon_poll P (provider w) (pgroups ctx) (word_of_int (num_groups ctx)))
            \<noteq> PQOS_RETVAL_OK
        \<longrightarrow> (\<exists>w'. rdtmon_read H P w = Some (Inl FAILURE, w') \<and> dispatched w' = dispatched w))
   \<and> (\<forall>r w'. rdtmon_read H P w = Some (r, w') \<and> dispatched w' \<noteq> dispatched w
        \<longrightarrow> (\<exists>ctx. g_rdtmon w = Some ctx \<and>
               fst (pqos_mon_poll P (provider w) (pgroups ctx) (word_of_int (num_groups ctx)))
                 = PQOS_RETVAL_OK))"
  by (auto simp: rdtmon_read_def Let_def split: option.splits prod.splits if_splits)


text \<open>
  C5 on the sample platform with one group: with the failing poll nothing is dispatched
  and the result is \<open>-1\<close>; with the succeeding poll the three records are dispatched.
\<close>

theorem C5_poll_failure_witness:
  "g_rdtmon one_group_world = Some one_group_ctx \<and>
   fst (pqos_mon_poll failing_library (provider one_group_world) (pgroups one_group_ctx)
          (word_of_int (num_groups one_group_ctx))) \<noteq> PQOS_RETVAL_OK \<and>
   (\<exists>w'. rdtmon_read sample_header failing_library one_group_world = Some (Inl FAILURE, w') \<and>
         dispatched w' = dispatched one_group_world) \<and>
   (\<exists>w'. rdtmon_read sample_header sample_library one_group_world = Some (Inr (), w') \<and>
         map vl_type (dispatched w') = [''llc'', ''ipc'', ''mbm''])"
  using C5_poll_failure [of one_group_world failing_library sample_header]
  by (simp add: sample_eval)

section \<open>Pre-initialisation\<close>




section \<open>Comparing two groups\<close>

lemma inner_count:
  "fold (\<lambda>j found. if x = bs ! j then found + 1 else found) [0..<length bs] (f0::int)
     = f0 + int (length (filter (\<lambda>y. x = y) bs))"
proof -
  have "fold (\<lambda>j found. if x = bs ! j then found + 1 else found) [0..<length bs] f0
        = fold (\<lambda>y found. if x = y then found + 1 else found) (map ((!) bs) [0..<length bs]) f0"
    by (simp add: fold_map comp_def)
  also have "\<dots> = fold (\<lambda>y found. if x = y then found + 1 else found) bs f0"
    by (simp add: map_nth)
  also have "\<dots> = f0 + int (length (filter (\<lambda>y. x = y) bs))"
    by (induction bs arbitrary: f0) auto
  finally show ?thesis .
qed

lemma inner_count_distinct:
  assumes "distinct bs"
  shows "fold (\<lambda>j found. if x = bs ! j then found + 1 else found) [0..<length bs] (f0::int)
     = (if x \<in> set bs then f0 + 1 else f0)"
proof -
  have "length (filter (\<lambda>y. x = y) bs) = (if x \<in> set bs then 1 else 0)"
    using assms by (induction bs) auto
  then show ?thesis by (simp add: inner_count)
qed

lemma outer_count:
  assumes "distinct bs"
  shows "fold (\<lambda>i found. fold (\<lambda>j found. if as ! i = bs ! j then found + 1 else found)
                              [0..<length bs] found)
              [0..<length as] (f0::int)
         = f0 + int (length (filter (\<lambda>x. x \<in> set bs) as))"
proof -
  have "fold (\<lambda>i found. fold (\<lambda>j found. if as ! i = bs ! j then found + 1 else found)
                              [0..<length bs] found) [0..<length as] f0
        = fold (\<lambda>i found. if as ! i \<in> set bs then found + 1 else found) [0..<length as] f0"
    using assms by (simp add: inner_count_distinct)
  also have "\<dots> = fold (\<lambda>x found. if x \<in> set bs then found + 1 else found)
                       (map ((!) as) [0..<length as]) f0"
    by (simp add: fold_map comp_def)
  also have "\<dots> = fold (\<lambda>x found. if x \<in> set bs then found + 1 else found) as f0"
    by (simp add: map_nth)
  also have "\<dots> = f0 + int (length (filter (\<lambda>x. x \<in> set bs) as))"
    by (induction as arbitrary: f0) auto
  finally show ?thesis .
qed

lemma cgroup_cmp_found:
  assumes "cores cg_a = Some as" "cores cg_b = Some bs"
      and "num_cores cg_a = int (length as)" "num_cores cg_b = int (length bs)"
      and "distinct bs"
  shows "cgroup_cmp cg_a cg_b =
           Some (let found = int (length (filter (\<lambda>x. x \<in> set bs) as)) in
                 if found = 0 then 0
                 else if length as = length bs \<and> int (length bs) = found then 1 else - 1)"
  using assms by (simp add: cgroup_cmp_def readable_def Let_def outer_count)

lemma length_filter_all:
  "length (filter P xs) = length xs \<longleftrightarrow> (\<forall>x\<in>set xs. P x)"
proof (induction xs)
  case Nil
  then show ?case by simp
next
  case (Cons a xs)
  have "length (filter P xs) \<le> length xs" by (rule length_filter_le)
  then have "length (filter P xs) \<noteq> Suc (length xs)" by arith
  then show ?case using Cons by auto
qed

lemma distinct_same_length_subset:
  assumes "distinct as" "distinct bs" "length as = length bs" "set as \<subseteq> set bs"
  shows "set as = set bs"
proof -
  have "card (set as) = card (set bs)"
    using assms by (simp add: distinct_card)
  with assms(4) show ?thesis by (simp add: card_subset_eq)
qed

text \<open>
  C8: for two groups whose core arrays are non-empty and free of duplicates (and whose
  \<open>num_cores\<close> is the length of the array), \<open>cgroup_cmp\<close> returns 0 (Disjoint), 1
  (Identical) or -1 (PartialOverlap); it returns 0 exactly when the groups share no
  core, 1 exactly when they have the same size and every core of one occurs in the other
  (whichever of the two is taken as the one), and -1 exactly when they share a core but
  their core sets differ, that is, some but not all cores are shared.
\<close>

theorem C8_cgroup_cmp_classifies:
  assumes "cores cg_a = Some as" "cores cg_b = Some bs"
      and "num_cores cg_a = int (length as)" "num_cores cg_b = int (length bs)"
      and "as \<noteq> []" "bs \<noteq> []" "distinct as" "distinct bs"
  shows "\<exists>r. cgroup_cmp cg_a cg_b = Some r \<and>
             (r = 0 \<or> r = 1 \<or> r = - 1) \<and>
             (r = 0 \<longleftrightarrow> set as \<inter> set bs = {}) \<and>
             (r = 1 \<longleftrightarrow> length as = length bs \<and> set as \<subseteq> set bs) \<and>
             (r = 1 \<longleftrightarrow> length as = length bs \<and> set bs \<subseteq> set as) \<and>
             (r = - 1 \<longleftrightarrow> set as \<inter> set bs \<noteq> {} \<and> set as \<noteq> set bs)"
proof -
  define f where "f = length (filter (\<lambda>x. x \<in> set bs) as)"
  define r :: int where
    "r = (if f = 0 then 0 else if length as = length bs \<and> length bs = f then 1 else - 1)"
  have cmp: "cgroup_cmp cg_a cg_b = Some r"
    using assms(1-4,8) by (simp add: cgroup_cmp_found Let_def f_def r_def)
  have f0: "f = 0 \<longleftrightarrow> set as \<inter> set bs = {}"
    by (auto simp: f_def filter_empty_conv)
  have fall: "f = length as \<longleftrightarrow> set as \<subseteq> set bs"
    unfolding f_def by (auto simp: length_filter_all)
  have ne: "set as \<subseteq> set bs \<Longrightarrow> f \<noteq> 0"
    using assms(5) f0 by (cases as) auto
  have eq: "length as = length bs \<Longrightarrow> set as \<subseteq> set bs \<longleftrightarrow> set as = set bs"
    using distinct_same_length_subset [OF assms(7,8)] by auto
  have eq': "length as = length bs \<Longrightarrow> set bs \<subseteq> set as \<longleftrightarrow> set as = set bs"
    using distinct_same_length_subset [OF assms(8,7)] by auto
  have len: "set as = set bs \<Longrightarrow> length as = length bs"
    using assms(7,8) by (metis distinct_card)
  have r0: "r = 0 \<longleftrightarrow> set as \<inter> set bs = {}"
    using f0 by (simp add: r_def)
  have r1: "r = 1 \<longleftrightarrow> length as = length bs \<and> set as \<subseteq> set bs"
    using fall ne by (auto simp: r_def)
  have r1': "r = 1 \<longleftrightarrow> length as = length bs \<and> set bs \<subseteq> set as"
    using r1 eq eq' by auto
  have rm: "r = - 1 \<longleftrightarrow> set as \<inter> set bs \<noteq> {} \<and> set as \<noteq> set bs"
  proof -
    have "r = - 1 \<longleftrightarrow> r \<noteq> 0 \<and> r \<noteq> 1" by (auto simp: r_def)
    also have "\<dots> \<longleftrightarrow> set as \<inter> set bs \<noteq> {} \<and> \<not> (length as = length bs \<and> set as \<subseteq> set bs)"
      using r0 r1 by simp
    also have "\<dots> \<longleftrightarrow> set as \<inter> set bs \<noteq> {} \<and> set as \<noteq> set bs"
      using eq len by auto
    finally show ?thesis .
  qed
  have "r = 0 \<or> r = 1 \<or> r = - 1" by (simp add: r_def)
  with cmp r0 r1 r1' rm show ?thesis by blast
qed

text \<open>
  C8 on the groups of the specification's examples: \<open>{0,1}\<close> and \<open>{2,3}\<close> are Disjoint,
  \<open>{0,1}\<close> and \<open>{0,1}\<close> Identical, \<open>{0,1}\<close> and \<open>{1,2}\<close> PartialOverlap.
\<close>

theorem C8_cgroup_cmp_classifies_witness:
  "cgroup_cmp (sample_group [0, 1]) (sample_group [2, 3]) = Some 0 \<and>
   cgroup_cmp (sample_group [0, 1]) (sample_group [0, 1]) = Some 1 \<and>
   cgroup_cmp (sample_group [0, 1]) (sample_group [1, 2]) = Some (- 1)"
  using C8_cgroup_cmp_classifies [of "sample_group [0, 1]" "[0, 1]" "sample_group [2, 3]" "[2, 3]"]
        C8_cgroup_cmp_classifies [of "sample_group [0, 1]" "[0, 1]" "sample_group [0, 1]" "[0, 1]"]
        C8_cgroup_cmp_classifies [of "sample_group [0, 1]" "[0, 1]" "sample_group [1, 2]" "[1, 2]"]
  by (auto simp: sample_group_def)

section \<open>Freeing, building and validating the table\<close>

lemma free_slot_simps:
  "cgroups (free_slot i ctx) k = (if k = i then free_cgroup (cgroups ctx k) else cgroups ctx k)"
  "pgroups (free_slot i ctx) k = (if k = i then None else pgroups ctx k)"
  "num_groups (free_slot i ctx) = num_groups ctx"
  "cap_mon (free_slot i ctx) = cap_mon ctx"
  "pqos_cpu (free_slot i ctx) = pqos_cpu ctx"
  "pqos_cap (free_slot i ctx) = pqos_cap ctx"
  by (auto simp: free_slot_def Let_def)

lemma fold_free_slot:
  "distinct js \<Longrightarrow>
     cgroups (fold free_slot js ctx) k
       = (if k \<in> set js then free_cgroup (cgroups ctx k) else cgroups ctx k) \<and>
     pgroups (fold free_slot js ctx) k = (if k \<in> set js then None else pgroups ctx k) \<and>
     num_groups (fold free_slot js ctx) = num_groups ctx \<and>
     cap_mon (fold free_slot js ctx) = cap_mon ctx \<and>
     pqos_cpu (fold free_slot js ctx) = pqos_cpu ctx \<and>
     pqos_cap (fold free_slot js ctx) = pqos_cap ctx"
proof (induction js arbitrary: ctx)
  case Nil
  then show ?case by simp
next
  case (Cons j js)
  then have d: "distinct js" and nj: "j \<notin> set js" by simp_all
  show ?case using Cons.IH [OF d, of "free_slot j ctx"] nj
    by (auto simp: free_slot_simps)
qed

lemma rdtmon_free_cgroups_simps:
  "cgroups (rdtmon_free_cgroups ctx) k
     = (if k < RDTMON_MAX_CORES then free_cgroup (cgroups ctx k) else cgroups ctx k)"
  "pgroups (rdtmon_free_cgroups ctx) k = (if k < RDTMON_MAX_CORES then None else pgroups ctx k)"
  "num_groups (rdtmon_free_cgroups ctx) = num_groups ctx"
  "cap_mon (rdtmon_free_cgroups ctx) = cap_mon ctx"
  "pqos_cpu (rdtmon_free_cgroups ctx) = pqos_cpu ctx"
  "pqos_cap (rdtmon_free_cgroups ctx) = pqos_cap ctx"
  using fold_free_slot [of "[0..<RDTMON_MAX_CORES]" ctx k]
  by (simp_all add: rdtmon_free_cgroups_def)

lemma free_cgroup_simps:
  "desc (free_cgroup cg) = None"
  "cores (free_cgroup cg) = None"
  "events (free_cgroup cg) = events cg"
  "num_cores (free_cgroup cg) = (if cores cg \<noteq> None then 0 else num_cores cg)"
  by (auto simp: free_cgroup_def Let_def)

lemma cgroup_cmp_cong:
  "cores a = cores a' \<Longrightarrow> num_cores a = num_cores a' \<Longrightarrow>
   cores b = cores b' \<Longrightarrow> num_cores b = num_cores b' \<Longrightarrow>
   cgroup_cmp a b = cgroup_cmp a' b'"
  by (simp add: cgroup_cmp_def)

lemma cmp_earlier_cong:
  "(\<And>k. cores (g k) = cores (g' k) \<and> num_cores (g k) = num_cores (g' k)) \<Longrightarrow>
   cmp_earlier g i js = cmp_earlier g' i js"
proof (induction js)
  case Nil
  then show ?case by simp
next
  case (Cons j js)
  have "cgroup_cmp (g j) (g i) = cgroup_cmp (g' j) (g' i)"
    using Cons.prems by (intro cgroup_cmp_cong) simp_all
  with Cons show ?case by (simp split: option.splits)
qed

lemma cmp_earlier_False:
  "cmp_earlier g i js = Some False \<longleftrightarrow> (\<forall>j\<in>set js. cgroup_cmp (g j) (g i) = Some 0)"
  by (induction js) (auto split: option.splits)

lemma cmp_earlier_None:
  "cmp_earlier g i js = None \<Longrightarrow> \<exists>j\<in>set js. cgroup_cmp (g j) (g i) = None"
  by (induction js) (auto split: option.splits if_splits)

lemma validate_groups_success:
  "validate_groups ev js h ctx = Some (Inr u, ctx', h') \<Longrightarrow>
     (\<forall>k. events (cgroups ctx' k) = (if k \<in> set js then ev else events (cgroups ctx k))) \<and>
     (\<forall>k. cores (cgroups ctx' k) = cores (cgroups ctx k) \<and>
          num_cores (cgroups ctx' k) = num_cores (cgroups ctx k) \<and>
          desc (cgroups ctx' k) = desc (cgroups ctx k)) \<and>
     (\<forall>k. pgroups ctx' k = (if k \<in> set js then Some Uninitialised else pgroups ctx k)) \<and>
     num_groups ctx' = num_groups ctx \<and> cap_mon ctx' = cap_mon ctx \<and>
     (\<forall>i\<in>set js. i < RDTMON_MAX_CORES \<and>
        (\<forall>j<i. cgroup_cmp (cgroups ctx j) (cgroups ctx i) = Some 0))"
proof (induction js arbitrary: h ctx)
  case Nil
  then show ?case by simp
next
  case (Cons i js)
  from Cons.prems have b: "i < RDTMON_MAX_CORES"
    by (simp split: if_splits)
  from Cons.prems b have ce: "cmp_earlier (cgroups ctx) i [0..<i] = Some False"
    by (auto split: option.splits bool.splits if_splits prod.splits simp: Let_def)
  define ctx1 where "ctx1 = ctx\<lparr>cgroups := (cgroups ctx)(i := (cgroups ctx i)\<lparr>events := ev\<rparr>)\<rparr>"
  define ctx2 where "ctx2 = ctx1\<lparr>pgroups := (pgroups ctx1)(i := Some Uninitialised)\<rparr>"
  from Cons.prems b ce have ok: "fst (malloc h)"
    and rec: "validate_groups ev js (snd (malloc h)) ctx2 = Some (Inr u, ctx', h')"
    by (auto split: prod.splits if_splits simp: Let_def ctx1_def ctx2_def)
  note IH = Cons.IH [OF rec]
  have cmp: "\<And>a b. cgroup_cmp (cgroups ctx2 a) (cgroups ctx2 b) = cgroup_cmp (cgroups ctx a) (cgroups ctx b)"
    by (rule cgroup_cmp_cong) (simp_all add: ctx2_def ctx1_def)
  have e1: "\<forall>k. events (cgroups ctx' k) = (if k \<in> set (i # js) then ev else events (cgroups ctx k))"
    using IH by (simp add: ctx2_def ctx1_def)
  have e2: "\<forall>k. cores (cgroups ctx' k) = cores (cgroups ctx k) \<and>
          num_cores (cgroups ctx' k) = num_cores (cgroups ctx k) \<and>
          desc (cgroups ctx' k) = desc (cgroups ctx k)"
    using IH by (simp add: ctx2_def ctx1_def)
  have e3: "\<forall>k. pgroups ctx' k = (if k \<in> set (i # js) then Some Uninitialised else pgroups ctx k)"
    using IH by (simp add: ctx2_def ctx1_def)
  have e4: "num_groups ctx' = num_groups ctx \<and> cap_mon ctx' = cap_mon ctx"
    using IH by (simp add: ctx2_def ctx1_def)
  have e5: "\<forall>a\<in>set (i # js). a < RDTMON_MAX_CORES \<and>
        (\<forall>j<a. cgroup_cmp (cgroups ctx j) (cgroups ctx a) = Some 0)"
  proof
    fix a assume a: "a \<in> set (i # js)"
    show "a < RDTMON_MAX_CORES \<and> (\<forall>j<a. cgroup_cmp (cgroups ctx j) (cgroups ctx a) = Some 0)"
    proof (cases "a = i")
      case True
      then show ?thesis using ce b by (simp add: cmp_earlier_False)
    next
      case False
      with a have "a \<in> set js" by simp
      with IH show ?thesis by (simp add: cmp)
    qed
  qed
  from e1 e2 e3 e4 e5 show ?case by blast
qed


lemma validate_groups_error:
  "validate_groups ev js h ctx = Some (Inl e, ctx', h') \<Longrightarrow>
     (e = EINVAL \<or> e = ENOMEM \<and> (\<exists>k. \<not> h k)) \<and>
     (\<exists>c. ctx' = rdtmon_free_cgroups c \<and>
          (\<forall>k. cores (cgroups c k) = cores (cgroups ctx k)) \<and>
          num_groups c = num_groups ctx)"
proof (induction js arbitrary: h ctx)
  case Nil
  then show ?case by simp
next
  case (Cons i js)
  from Cons.prems have b: "i < RDTMON_MAX_CORES"
    by (simp split: if_splits)
  define ctx1 where "ctx1 = ctx\<lparr>cgroups := (cgroups ctx)(i := (cgroups ctx i)\<lparr>events := ev\<rparr>)\<rparr>"
  define ctx2 where "ctx2 = ctx1\<lparr>pgroups := (pgroups ctx1)(i := Some Uninitialised)\<rparr>"
  consider (overlap) "cmp_earlier (cgroups ctx) i [0..<i] = Some True"
    | (nomem) "cmp_earlier (cgroups ctx) i [0..<i] = Some False" "\<not> fst (malloc h)"
    | (go_on) "cmp_earlier (cgroups ctx) i [0..<i] = Some False" "fst (malloc h)"
    using Cons.prems b by (auto split: option.splits bool.splits)
  then show ?case
  proof cases
    case overlap
    with Cons.prems b have "e = EINVAL" "ctx' = rdtmon_free_cgroups ctx" by simp_all
    then show ?thesis by auto
  next
    case nomem
    with Cons.prems b have e: "e = ENOMEM"
      and c: "ctx' = rdtmon_free_cgroups (ctx1\<lparr>pgroups := (pgroups ctx1)(i := None)\<rparr>)"
      by (auto split: prod.splits simp: Let_def ctx1_def)
    from nomem have "\<not> h 0" by (simp add: malloc_def)
    then have "\<exists>k. \<not> h k" by blast
    moreover have "\<forall>k. cores (cgroups (ctx1\<lparr>pgroups := (pgroups ctx1)(i := None)\<rparr>) k) = cores (cgroups ctx k)"
      by (simp add: ctx1_def)
    moreover have "num_groups (ctx1\<lparr>pgroups := (pgroups ctx1)(i := None)\<rparr>) = num_groups ctx"
      by (simp add: ctx1_def)
    ultimately show ?thesis using e c by blast
  next
    case go_on
    with Cons.prems b have rec: "validate_groups ev js (snd (malloc h)) ctx2 = Some (Inl e, ctx', h')"
      by (auto split: prod.splits simp: Let_def ctx1_def ctx2_def)
    from Cons.IH [OF rec] obtain c where
      e: "e = EINVAL \<or> e = ENOMEM \<and> (\<exists>k. \<not> snd (malloc h) k)" and
      c: "ctx' = rdtmon_free_cgroups c" "\<forall>k. cores (cgroups c k) = cores (cgroups ctx2 k)"
         "num_groups c = num_groups ctx2"
      by blast
    from e have "e = EINVAL \<or> e = ENOMEM \<and> (\<exists>k. \<not> h k)"
      by (auto simp: malloc_def)
    moreover have "\<forall>k. cores (cgroups c k) = cores (cgroups ctx k)" "num_groups c = num_groups ctx"
      using c by (simp_all add: ctx2_def ctx1_def)
    ultimately show ?thesis using c(1) by blast
  qed
qed

lemma validate_groups_not_None:
  "(\<forall>i\<in>set js. i < RDTMON_MAX_CORES \<and>
       (\<forall>j<i. cgroup_cmp (cgroups ctx j) (cgroups ctx i) \<noteq> None)) \<Longrightarrow>
   validate_groups ev js h ctx \<noteq> None"
proof (induction js arbitrary: h ctx)
  case Nil
  then show ?case by simp
next
  case (Cons i js)
  define ctx1 where "ctx1 = ctx\<lparr>cgroups := (cgroups ctx)(i := (cgroups ctx i)\<lparr>events := ev\<rparr>)\<rparr>"
  define ctx2 where "ctx2 = ctx1\<lparr>pgroups := (pgroups ctx1)(i := Some Uninitialised)\<rparr>"
  have cmp: "\<And>a b. cgroup_cmp (cgroups ctx2 a) (cgroups ctx2 b) = cgroup_cmp (cgroups ctx a) (cgroups ctx b)"
    by (rule cgroup_cmp_cong) (simp_all add: ctx2_def ctx1_def)
  from Cons.prems have b: "i < RDTMON_MAX_CORES" by simp
  from Cons.prems have nn: "\<forall>j<i. cgroup_cmp (cgroups ctx j) (cgroups ctx i) \<noteq> None" by simp
  have ce: "cmp_earlier (cgroups ctx) i [0..<i] \<noteq> None"
  proof
    assume "cmp_earlier (cgroups ctx) i [0..<i] = None"
    then obtain j where "j \<in> set [0..<i]" "cgroup_cmp (cgroups ctx j) (cgroups ctx i) = None"
      using cmp_earlier_None by blast
    with nn show False by auto
  qed
  have "validate_groups ev js (snd (malloc h)) ctx2 \<noteq> None"
    using Cons.prems by (intro Cons.IH) (simp add: cmp)
  with b ce show ?case
    by (auto split: option.splits bool.splits prod.splits simp: Let_def ctx1_def ctx2_def)
qed

lemma built_cmp: "built a \<Longrightarrow> built b \<Longrightarrow> cgroup_cmp a b \<noteq> None"
  by (auto simp: built_def cgroup_cmp_def readable_def Let_def split: option.splits)

lemma cgroup_set_Inr:
  "cgroup_set h cg d cs n = Some (Inr u, cg', h') \<Longrightarrow>
     built cg' \<and> desc cg' = d \<and> num_cores cg' = n \<and>
     cores cg' = Some (map ucast (take (nat n) cs)) \<and> events cg' = events cg \<and>
     h' = snd (malloc h) \<and> h 0"
  by (auto simp: cgroup_set_def built_def malloc_def split: if_splits prod.splits)

lemma oconfig_to_cgroups_loop_built:
  "oconfig_to_cgroups_loop H vs index maxg h groups = Some (Inr n, groups', h') \<Longrightarrow>
   index < maxg \<Longrightarrow> index \<le> RDTMON_MAX_CORES \<Longrightarrow>
     index \<le> n \<and> n \<le> maxg \<and> n \<le> RDTMON_MAX_CORES \<and>
     (\<forall>k. index \<le> k \<and> k < n \<longrightarrow> built (groups' k)) \<and>
     (\<forall>k. k < index \<longrightarrow> groups' k = groups k)"
proof (induction vs arbitrary: index h groups)
  case Nil
  then show ?case by auto
next
  case (Cons v vs)
  from Cons.prems(1) consider
      (skip) "oconfig_to_cgroups_loop H vs index maxg h groups = Some (Inr n, groups', h')"
    | (last) cg h1 h2 d cs m where "index < RDTMON_MAX_CORES"
        "cgroup_set h1 (groups index) d cs m = Some (Inr (), cg, h2)"
        "Suc index \<ge> maxg" "n = Suc index" "groups' = groups(index := cg)"
    | (more) cg h1 h2 d cs m where "index < RDTMON_MAX_CORES"
        "cgroup_set h1 (groups index) d cs m = Some (Inr (), cg, h2)"
        "\<not> Suc index \<ge> maxg"
        "oconfig_to_cgroups_loop H vs (Suc index) maxg h2 (groups(index := cg))
           = Some (Inr n, groups', h')"
    by (auto split: oconfig_value.splits option.splits if_splits prod.splits sum.splits
             simp: Let_def)
  then show ?case
  proof cases
    case skip
    then show ?thesis using Cons.IH Cons.prems(2,3) by blast
  next
    case last
    from last(2) have "built cg" by (auto dest: cgroup_set_Inr)
    with last Cons.prems(2) show ?thesis by auto
  next
    case more
    from more(2) have bc: "built cg" by (auto dest: cgroup_set_Inr)
    from more(3) have lt: "Suc index < maxg" by simp
    from more(1) have le: "Suc index \<le> RDTMON_MAX_CORES" by simp
    from Cons.IH [OF more(4) lt le] have
      IH: "Suc index \<le> n" "n \<le> maxg" "n \<le> RDTMON_MAX_CORES"
          "\<forall>k. Suc index \<le> k \<and> k < n \<longrightarrow> built (groups' k)"
          "\<forall>k. k < Suc index \<longrightarrow> groups' k = (groups(index := cg)) k"
      by blast+
    from IH(5) have gi: "groups' index = cg" by simp
    have "\<forall>k. index \<le> k \<and> k < n \<longrightarrow> built (groups' k)"
    proof (intro allI impI)
      fix k assume "index \<le> k \<and> k < n"
      then show "built (groups' k)" using IH(4) gi bc by (cases "k = index") auto
    qed
    moreover have "\<forall>k. k < index \<longrightarrow> groups' k = groups k"
      using IH(5) by auto
    ultimately show ?thesis using IH(1-3) by auto
  qed
qed


lemma ucast_of_nat_64_32: "(ucast (of_nat n :: 64 word) :: 32 word) = of_nat n"
  by (rule bit_word_eqI) (auto simp: bit_simps)

lemma rdtmon_default_cgroups_loop_Inr:
  "rdtmon_default_cgroups_loop cs i h groups = Some (Inr u, groups', h') \<Longrightarrow>
     (cs \<noteq> [] \<longrightarrow> i + length cs \<le> RDTMON_MAX_CORES) \<and>
     (\<forall>k. k < length cs \<longrightarrow>
        groups' (i + k) =
          (groups (i + k))\<lparr>desc := Some (printf_d (lcore (cs ! k))), num_cores := 1,
                            cores := Some [of_nat (i + k)]\<rparr>) \<and>
     (\<forall>k. k < i \<longrightarrow> groups' k = groups k) \<and>
     (\<forall>k. i + length cs \<le> k \<longrightarrow> groups' k = groups k)"
proof (induction cs arbitrary: i h groups)
  case Nil
  then show ?case by simp
next
  case (Cons c cs)
  from Cons.prems obtain cg h1 h2 where
    b: "i < RDTMON_MAX_CORES" and
    s: "cgroup_set h1 (groups i) (Some (printf_d (lcore c))) [of_nat i] 1 = Some (Inr (), cg, h2)" and
    rec: "rdtmon_default_cgroups_loop cs (Suc i) h2 (groups(i := cg)) = Some (Inr u, groups', h')"
    by (auto simp: Let_def ssnprintf_alloc_d_def
             split: prod.splits if_splits option.splits sum.splits)
  from s have cg: "cg = (groups i)\<lparr>desc := Some (printf_d (lcore c)), num_cores := 1,
                                    cores := Some [of_nat i]\<rparr>"
    by (auto simp: cgroup_set_def ucast_of_nat_64_32 split: prod.splits if_splits)
  note IH = Cons.IH [OF rec]
  have 1: "i + length (c # cs) \<le> RDTMON_MAX_CORES"
    using IH b by (cases cs) auto
  have 2: "\<forall>k. k < length (c # cs) \<longrightarrow>
        groups' (i + k) =
          (groups (i + k))\<lparr>desc := Some (printf_d (lcore ((c # cs) ! k))), num_cores := 1,
                            cores := Some [of_nat (i + k)]\<rparr>"
  proof (intro allI impI)
    fix k assume k: "k < length (c # cs)"
    show "groups' (i + k) =
          (groups (i + k))\<lparr>desc := Some (printf_d (lcore ((c # cs) ! k))), num_cores := 1,
                            cores := Some [of_nat (i + k)]\<rparr>"
    proof (cases k)
      case 0
      from IH have "groups' i = (groups(i := cg)) i" by simp
      with 0 cg show ?thesis by simp
    next
      case (Suc k')
      with k have "k' < length cs" by simp
      with IH have "groups' (Suc i + k') =
          ((groups(i := cg)) (Suc i + k'))\<lparr>desc := Some (printf_d (lcore (cs ! k'))), num_cores := 1,
                            cores := Some [of_nat (Suc i + k')]\<rparr>" by blast
      with Suc show ?thesis by simp
    qed
  qed
  have 3: "\<forall>k. k < i \<longrightarrow> groups' k = groups k"
    using IH by auto
  have 4: "\<forall>k. i + length (c # cs) \<le> k \<longrightarrow> groups' k = groups k"
    using IH by auto
  from 1 2 3 4 show ?case by blast
qed

lemma build_cgroups_built:
  assumes "build_cgroups H it h ctx = Some (Inr n, ctx1, h1)"
  shows "n \<le> RDTMON_MAX_CORES \<and> (\<forall>k<n. built (cgroups ctx1 k)) \<and>
         cap_mon ctx1 = cap_mon ctx \<and> num_groups ctx1 = num_groups ctx \<and>
         pgroups ctx1 = pgroups ctx"
proof -
  from assms consider
      (explicit) groups where
        "oconfig_to_cgroups H it (cgroups ctx) RDTMON_MAX_CORES h = Some (Inr n, groups, h1)"
        "n \<noteq> 0" "ctx1 = ctx\<lparr>cgroups := groups\<rparr>"
    | (default) groups h0 where
        "rdtmon_default_cgroups h0 (ctx\<lparr>cgroups := groups\<rparr>) = Some (Inr n, ctx1, h1)"
    by (auto simp: build_cgroups_def split: option.splits prod.splits sum.splits if_splits)
  then show ?thesis
  proof cases
    case explicit
    from explicit(1) have pos: "0 < RDTMON_MAX_CORES"
      and l: "oconfig_to_cgroups_loop H (values_of it) 0 RDTMON_MAX_CORES h (cgroups ctx)
                = Some (Inr n, groups, h1)"
      by (auto simp: oconfig_to_cgroups_def split: if_splits)
    from oconfig_to_cgroups_loop_built [OF l pos] explicit(3) show ?thesis by simp
  next
    case default
    then obtain cpu groups' u where
      c: "pqos_cpu ctx = Some cpu" and
      l: "rdtmon_default_cgroups_loop (cpu_cores cpu) 0 h0 groups = Some (Inr u, groups', h1)" and
      n: "n = length (cpu_cores cpu)" and c1: "ctx1 = ctx\<lparr>cgroups := groups'\<rparr>"
      by (auto simp: rdtmon_default_cgroups_def split: option.splits prod.splits sum.splits)
    note L = rdtmon_default_cgroups_loop_Inr [OF l]
    have "n \<le> RDTMON_MAX_CORES" using L n by (cases "cpu_cores cpu") auto
    moreover have "\<forall>k<n. built (cgroups ctx1 k)"
      using L n c1 by (auto simp: built_def)
    ultimately show ?thesis using c1 by simp
  qed
qed


section \<open>Applying a configuration\<close>

lemmas config_eval =
  rdtmon_config_cgroups_def build_cgroups_def oconfig_to_cgroups_def cgroup_set_def strdup_def
  malloc_def sstrncpy_def cgroup_cmp_def readable_def available_events_def is_string_def
  cores_item_def sample_ctx_def sample_header_def sample_cap_mon_def sample_cpu_def zero_ctx_def
  max_cores_eval parser_eval Let_def upt_rec [of _ "numeral _"] upt_rec [of 0 "Suc _"]
  upt_rec [of "Suc _" "Suc _"] upt_rec [of 0 1] upt_rec [of 1 1] upt_rec [of 0 0]


lemma bit_fold_or:
  "bit (fold (\<lambda>ty events. events OR ty) tys (e0 :: 32 word)) k
     \<longleftrightarrow> bit e0 k \<or> (\<exists>ty\<in>set tys. bit ty k)"
  by (induction tys arbitrary: e0) (auto simp: bit_or_iff)

lemma rdtmon_config_cgroups_Some:
  assumes "rdtmon_config_cgroups H item h ctx = Some (r, ctx', h')"
      and "r \<noteq> Inl EINVAL \<or> ctx' \<noteq> ctx"
  shows "\<exists>it n ctx1 h1.
           item = Some it \<and> list_all is_string (values_of it) \<and>
           (build_cgroups H it h ctx = Some (Inl (projl r), ctx', h') \<and> isl r \<or>
            build_cgroups H it h ctx = Some (Inr n, ctx1, h1) \<and>
            (\<exists>cm. cap_mon ctx1 = Some cm \<and>
               validate_groups (available_events H cm) [0..<n] h1 (ctx1\<lparr>num_groups := int n\<rparr>)
                 = Some (r, ctx', h')))"
  using assms
  by (auto simp: rdtmon_config_cgroups_def split: option.splits if_splits prod.splits sum.splits)

text \<open>
  C3: after \<open>rdtmon_config_cgroups\<close> has succeeded, every group of the live table (every
  index below \<open>num_groups\<close>) has the same event mask: the value whose bits are exactly
  the bits set in some event type the capability advertises, without the bits of
  \<open>PQOS_PERF_EVENT_LLC_MISS\<close>; so the LLC-miss bit is in no group's mask, advertised or
  not.
\<close>

theorem C3_event_mask:
  assumes "rdtmon_config_cgroups H item h ctx = Some (Inr u, ctx', h')"
  shows "\<exists>cm. cap_mon ctx = Some cm \<and> cap_mon ctx' = Some cm \<and>
           (\<forall>i. int i < num_groups ctx' \<longrightarrow>
                events (cgroups ctx' i) = available_events H cm \<and>
                events (cgroups ctx' i) AND PQOS_PERF_EVENT_LLC_MISS H = 0) \<and>
           (\<forall>k. bit (available_events H cm) k \<longleftrightarrow>
                  (\<exists>ty\<in>set (mon_event_types cm). bit ty k) \<and>
                  \<not> bit (PQOS_PERF_EVENT_LLC_MISS H) k)"
proof -
  from rdtmon_config_cgroups_Some [OF assms] obtain it n ctx1 h1 cm where
    b: "build_cgroups H it h ctx = Some (Inr n, ctx1, h1)" and
    cm: "cap_mon ctx1 = Some cm" and
    v: "validate_groups (available_events H cm) [0..<n] h1 (ctx1\<lparr>num_groups := int n\<rparr>)
          = Some (Inr u, ctx', h')"
    by auto
  note B = build_cgroups_built [OF b]
  note V = validate_groups_success [OF v]
  have c0: "cap_mon ctx = Some cm" using B cm by simp
  have c1: "cap_mon ctx' = Some cm" using V cm by simp
  have ng: "num_groups ctx' = int n" using V by simp
  have bits: "\<forall>k. bit (available_events H cm) k \<longleftrightarrow>
                  (\<exists>ty\<in>set (mon_event_types cm). bit ty k) \<and>
                  \<not> bit (PQOS_PERF_EVENT_LLC_MISS H) k"
    by (auto simp: available_events_def bit_and_iff bit_not_iff bit_fold_or dest: bit_imp_possible_bit)
  have clr: "available_events H cm AND PQOS_PERF_EVENT_LLC_MISS H = 0"
    by (rule bit_word_eqI) (simp add: bit_and_iff bits)
  have ev: "\<forall>i. int i < num_groups ctx' \<longrightarrow>
                events (cgroups ctx' i) = available_events H cm \<and>
                events (cgroups ctx' i) AND PQOS_PERF_EVENT_LLC_MISS H = 0"
    using V ng clr by simp
  from c0 c1 ev bits show ?thesis by blast
qed

text \<open>
  C3 on the sample platform, whose capability advertises LLC-miss (the union of the
  advertised types is \<open>0xC00F\<close>): both groups of \<open>Cores "0-3" "4-7"\<close> get \<open>0x800F\<close>.
\<close>

theorem C3_event_mask_witness:
  "\<exists>ctx' h'. rdtmon_config_cgroups sample_header (Some (cores_item [''0-3'', ''4-7'']))
                (\<lambda>k. True) sample_ctx = Some (Inr (), ctx', h') \<and>
     num_groups ctx' = 2 \<and>
     events (cgroups ctx' 0) = 0x800F \<and> events (cgroups ctx' 1) = 0x800F \<and>
     events (cgroups ctx' 0) AND PQOS_PERF_EVENT_LLC_MISS sample_header = 0 \<and>
     events (cgroups ctx' 1) AND PQOS_PERF_EVENT_LLC_MISS sample_header = 0 \<and>
     fold (\<lambda>ty events. events OR ty) (mon_event_types sample_cap_mon) 0 = (0xC00F :: 32 word)"
proof -
  have "\<exists>ctx' h'. rdtmon_config_cgroups sample_header (Some (cores_item [''0-3'', ''4-7'']))
                (\<lambda>k. True) sample_ctx = Some (Inr (), ctx', h') \<and> num_groups ctx' = 2"
    by (simp add: config_eval)
  then obtain ctx' h' where
    r: "rdtmon_config_cgroups sample_header (Some (cores_item [''0-3'', ''4-7'']))
          (\<lambda>k. True) sample_ctx = Some (Inr (), ctx', h')" and n: "num_groups ctx' = 2"
    by blast
  from C3_event_mask [OF r] have
    e: "\<forall>i. int i < num_groups ctx' \<longrightarrow>
          events (cgroups ctx' i) = available_events sample_header sample_cap_mon \<and>
          events (cgroups ctx' i) AND PQOS_PERF_EVENT_LLC_MISS sample_header = 0"
    by (auto simp: sample_ctx_def)
  have a: "available_events sample_header sample_cap_mon = 0x800F"
    by (simp add: available_events_def sample_header_def sample_cap_mon_def)
  have f: "fold (\<lambda>ty events. events OR ty) (mon_event_types sample_cap_mon) 0 = (0xC00F :: 32 word)"
    by (simp add: sample_cap_mon_def)
  have l0: "int 0 < num_groups ctx'" and l1: "int 1 < num_groups ctx'" using n by simp_all
  from e l0 have g0: "events (cgroups ctx' 0) = available_events sample_header sample_cap_mon \<and>
          events (cgroups ctx' 0) AND PQOS_PERF_EVENT_LLC_MISS sample_header = 0"
    by blast
  from e l1 have g1: "events (cgroups ctx' 1) = available_events sample_header sample_cap_mon \<and>
          events (cgroups ctx' 1) AND PQOS_PERF_EVENT_LLC_MISS sample_header = 0"
    by blast
  from r n g0 g1 f show ?thesis unfolding a by blast
qed

text \<open>
  Let the groups of a block \<open>Cores\<close> have been built (\<open>n\<close> of them, explicit or default).
  If two of them, \<open>j\<close> before \<open>i\<close>, compare as anything but 0, that is as Identical or
  PartialOverlap, then \<open>rdtmon_config_cgroups\<close> returns an error (\<open>-EINVAL\<close>, or
  \<open>-ENOMEM\<close> when an allocation failed before the pair was reached) and every slot of
  the table has been released: no description, no core array and no monitoring data is
  left in any slot, and the \<open>n\<close> slots that held the groups have \<open>num_cores = 0\<close>. The
  counter \<open>num_groups\<close>, set to \<open>n\<close> before the comparisons, is not reset on this path
  and still holds \<open>n\<close>. Conversely, when the function succeeds, every group compares as
  0 with every group before it.
\<close>

lemma rdtmon_config_cgroups_overlap:
  assumes "list_all is_string (values_of it)"
      and "build_cgroups H it h ctx = Some (Inr n, ctx1, h1)"
      and "cap_mon ctx \<noteq> None"
  shows "(j < i \<and> i < n \<and> cgroup_cmp (cgroups ctx1 j) (cgroups ctx1 i) \<noteq> Some 0 \<longrightarrow>
           (\<exists>e ctx' h'.
              rdtmon_config_cgroups H (Some it) h ctx = Some (Inl e, ctx', h') \<and>
              (e = EINVAL \<or> e = ENOMEM \<and> (\<exists>k. \<not> h1 k)) \<and>
              (\<forall>k<RDTMON_MAX_CORES.
                 desc (cgroups ctx' k) = None \<and> cores (cgroups ctx' k) = None \<and>
                 pgroups ctx' k = None) \<and>
              (\<forall>k<n. num_cores (cgroups ctx' k) = 0) \<and>
              num_groups ctx' = int n))
       \<and> (\<forall>u ctx' h'. rdtmon_config_cgroups H (Some it) h ctx = Some (Inr u, ctx', h') \<longrightarrow>
             (\<forall>i<n. \<forall>j<i. cgroup_cmp (cgroups ctx' j) (cgroups ctx' i) = Some 0))"
proof -
  note B = build_cgroups_built [OF assms(2)]
  from assms(3) B obtain cm where cm: "cap_mon ctx1 = Some cm" by auto
  define ctx2 where "ctx2 = ctx1\<lparr>num_groups := int n\<rparr>"
  have cfg: "rdtmon_config_cgroups H (Some it) h ctx
               = validate_groups (available_events H cm) [0..<n] h1 ctx2"
    using assms(1,2) cm by (simp add: rdtmon_config_cgroups_def ctx2_def)
  have cmp2: "\<And>a b. cgroup_cmp (cgroups ctx2 a) (cgroups ctx2 b)
                        = cgroup_cmp (cgroups ctx1 a) (cgroups ctx1 b)"
    by (simp add: ctx2_def)
  have nn: "validate_groups (available_events H cm) [0..<n] h1 ctx2 \<noteq> None"
  proof (rule validate_groups_not_None, intro ballI conjI allI impI)
    fix a assume "a \<in> set [0..<n]"
    then have a: "a < n" by simp
    with B show "a < RDTMON_MAX_CORES" by simp
    fix b assume "b < a"
    with a B have "built (cgroups ctx1 b)" "built (cgroups ctx1 a)" by simp_all
    then show "cgroup_cmp (cgroups ctx2 b) (cgroups ctx2 a) \<noteq> None"
      by (simp add: cmp2 built_cmp)
  qed
  have part1: "j < i \<and> i < n \<and> cgroup_cmp (cgroups ctx1 j) (cgroups ctx1 i) \<noteq> Some 0 \<longrightarrow>
           (\<exists>e ctx' h'.
              rdtmon_config_cgroups H (Some it) h ctx = Some (Inl e, ctx', h') \<and>
              (e = EINVAL \<or> e = ENOMEM \<and> (\<exists>k. \<not> h1 k)) \<and>
              (\<forall>k<RDTMON_MAX_CORES.
                 desc (cgroups ctx' k) = None \<and> cores (cgroups ctx' k) = None \<and>
                 pgroups ctx' k = None) \<and>
              (\<forall>k<n. num_cores (cgroups ctx' k) = 0) \<and>
              num_groups ctx' = int n)"
  proof
    assume ov: "j < i \<and> i < n \<and> cgroup_cmp (cgroups ctx1 j) (cgroups ctx1 i) \<noteq> Some 0"
    from nn obtain r ctx' h' where
      v: "validate_groups (available_events H cm) [0..<n] h1 ctx2 = Some (r, ctx', h')"
      by (cases "validate_groups (available_events H cm) [0..<n] h1 ctx2") auto
    have "\<exists>e. r = Inl e"
    proof (cases r)
      case (Inl e)
      then show ?thesis by simp
    next
      case (Inr u)
      with v have "validate_groups (available_events H cm) [0..<n] h1 ctx2 = Some (Inr u, ctx', h')"
        by simp
      from validate_groups_success [OF this] ov
      have "cgroup_cmp (cgroups ctx2 j) (cgroups ctx2 i) = Some 0" by simp
      with ov show ?thesis by (simp add: cmp2)
    qed
    then obtain e where e: "r = Inl e" by blast
    from validate_groups_error [OF v [unfolded e]] obtain c where
      ee: "e = EINVAL \<or> e = ENOMEM \<and> (\<exists>k. \<not> h1 k)" and
      c: "ctx' = rdtmon_free_cgroups c" "\<forall>k. cores (cgroups c k) = cores (cgroups ctx2 k)"
         "num_groups c = num_groups ctx2"
      by blast
    have cleared: "\<forall>k<RDTMON_MAX_CORES.
                 desc (cgroups ctx' k) = None \<and> cores (cgroups ctx' k) = None \<and>
                 pgroups ctx' k = None"
      by (simp add: c(1) rdtmon_free_cgroups_simps free_cgroup_simps)
    have zero: "\<forall>k<n. num_cores (cgroups ctx' k) = 0"
    proof (intro allI impI)
      fix k assume k: "k < n"
      with B have "built (cgroups ctx1 k)" and "k < RDTMON_MAX_CORES" by simp_all
      then have "cores (cgroups c k) \<noteq> None" and "k < RDTMON_MAX_CORES"
        using c(2) by (auto simp: built_def ctx2_def split: option.splits)
      then show "num_cores (cgroups ctx' k) = 0"
        by (simp add: c(1) rdtmon_free_cgroups_simps free_cgroup_simps)
    qed
    have "num_groups ctx' = int n"
      by (simp add: c(1,3) rdtmon_free_cgroups_simps ctx2_def)
    then have ng: "num_groups ctx' = int n" .
    have res: "rdtmon_config_cgroups H (Some it) h ctx = Some (Inl e, ctx', h')"
      using cfg v e by simp
    from res ee cleared zero ng show "\<exists>e ctx' h'.
              rdtmon_config_cgroups H (Some it) h ctx = Some (Inl e, ctx', h') \<and>
              (e = EINVAL \<or> e = ENOMEM \<and> (\<exists>k. \<not> h1 k)) \<and>
              (\<forall>k<RDTMON_MAX_CORES.
                 desc (cgroups ctx' k) = None \<and> cores (cgroups ctx' k) = None \<and>
                 pgroups ctx' k = None) \<and>
              (\<forall>k<n. num_cores (cgroups ctx' k) = 0) \<and>
              num_groups ctx' = int n"
      by (intro exI [of _ e] exI [of _ ctx'] exI [of _ h'] conjI)
  qed
  have part2: "\<forall>u ctx' h'. rdtmon_config_cgroups H (Some it) h ctx = Some (Inr u, ctx', h') \<longrightarrow>
             (\<forall>i<n. \<forall>j<i. cgroup_cmp (cgroups ctx' j) (cgroups ctx' i) = Some 0)"
  proof (intro allI impI)
    fix u ctx' h' a b
    assume r: "rdtmon_config_cgroups H (Some it) h ctx = Some (Inr u, ctx', h')"
      and a: "a < n" and b: "b < a"
    from r cfg have v: "validate_groups (available_events H cm) [0..<n] h1 ctx2 = Some (Inr u, ctx', h')"
      by simp
    note V = validate_groups_success [OF v]
    have "cgroup_cmp (cgroups ctx' b) (cgroups ctx' a) = cgroup_cmp (cgroups ctx2 b) (cgroups ctx2 a)"
      using V by (intro cgroup_cmp_cong) simp_all
    also have "\<dots> = Some 0" using V a b by simp
    finally show "cgroup_cmp (cgroups ctx' b) (cgroups ctx' a) = Some 0" .
  qed
  from part1 part2 show ?thesis by blast
qed


text \<open>
  C1 does not hold of the source. On the sample platform the block \<open>Cores "0-3" "2-5"\<close>
  builds two groups that share the cores 2 and 3; \<open>rdtmon_config_cgroups\<close> returns
  \<open>-EINVAL\<close> and releases every slot, but \<open>num_groups\<close>, set to 2 before the
  comparisons, is not reset: the context still counts two live groups, whose core
  arrays and monitoring data are now NULL. The entry points go by that counter:
  \<open>rdtmon_read\<close> hands two groups to the bulk poll (the library here reports a failure
  and records the count it was given), and when the poll reports success it
  dereferences the NULL monitoring data of group 0; \<open>rdtmon_init\<close> asks the library
  twice to start monitoring. The sibling error path is consistent with the claim: on
  \<open>Cores "0-3" "abc"\<close>, where the second value does not parse, the function returns
  \<open>-EINVAL\<close> with \<open>num_groups = 0\<close>.
\<close>

theorem C1_overlap_leaves_groups_live:
  "(\<exists>ctx' h'.
     rdtmon_config_cgroups sample_header (Some (cores_item [''0-3'', ''2-5'']))
       (\<lambda>k. True) sample_ctx = Some (Inl EINVAL, ctx', h') \<and>
     num_groups ctx' = 2 \<and>
     cores (cgroups ctx' 0) = None \<and> cores (cgroups ctx' 1) = None \<and>
     pgroups ctx' 0 = None \<and> pgroups ctx' 1 = None \<and>
     rdtmon_read sample_header
       (sample_library\<lparr>pqos_mon_poll := (\<lambda>p pg n. (PQOS_RETVAL_ERROR, pg, unat n))\<rparr>)
       (initial_world\<lparr>g_rdtmon := Some ctx'\<rparr>)
       = Some (Inl FAILURE, initial_world\<lparr>g_rdtmon := Some ctx', provider := 2\<rparr>) \<and>
     rdtmon_read sample_header
       (sample_library\<lparr>pqos_mon_poll := (\<lambda>p pg n. (PQOS_RETVAL_OK, pg, unat n))\<rparr>)
       (initial_world\<lparr>g_rdtmon := Some ctx'\<rparr>) = None \<and>
     (\<exists>w. rdtmon_init sample_library (initial_world\<lparr>g_rdtmon := Some ctx'\<rparr>)
            = Some (Inr (), w) \<and> provider w = 2)) \<and>
   (\<exists>ctx' h'.
     rdtmon_config_cgroups sample_header (Some (cores_item [''0-3'', ''abc'']))
       (\<lambda>k. True) sample_ctx = Some (Inl EINVAL, ctx', h') \<and>
     num_groups ctx' = 0)"
proof -
  have str: "\<And>vs. list_all is_string (values_of (cores_item vs))"
    by (simp add: cores_item_def list_all_iff is_string_def)
  have cm: "cap_mon sample_ctx \<noteq> None" by (simp add: sample_ctx_def)
  have "\<exists>ctx1 h1. build_cgroups sample_header (cores_item [''0-3'', ''2-5'']) (\<lambda>k. True) sample_ctx
                 = Some (Inr 2, ctx1, h1) \<and>
              cgroup_cmp (cgroups ctx1 0) (cgroups ctx1 1) = Some (- 1) \<and> h1 = (\<lambda>k. True)"
    by (simp add: config_eval)
  then obtain ctx1 h1 where
    b: "build_cgroups sample_header (cores_item [''0-3'', ''2-5'']) (\<lambda>k. True) sample_ctx
          = Some (Inr 2, ctx1, h1)" and
    c: "cgroup_cmp (cgroups ctx1 0) (cgroups ctx1 1) = Some (- 1)" and h1: "h1 = (\<lambda>k. True)"
    by blast
  from c have ov: "0 < (1::nat) \<and> (1::nat) < 2 \<and> cgroup_cmp (cgroups ctx1 0) (cgroups ctx1 1) \<noteq> Some 0"
    by simp
  from rdtmon_config_cgroups_overlap [OF str b cm, of 0 1] ov obtain e ctx' h' where
    r: "rdtmon_config_cgroups sample_header (Some (cores_item [''0-3'', ''2-5'']))
          (\<lambda>k. True) sample_ctx = Some (Inl e, ctx', h')" and
    e: "e = EINVAL \<or> e = ENOMEM \<and> (\<exists>k. \<not> h1 k)" and
    cl: "\<forall>k<RDTMON_MAX_CORES.
           desc (cgroups ctx' k) = None \<and> cores (cgroups ctx' k) = None \<and> pgroups ctx' k = None" and
    ng: "num_groups ctx' = int 2"
    by blast
  from e h1 have e': "e = EINVAL" by simp
  have "(0::nat) < RDTMON_MAX_CORES" "(1::nat) < RDTMON_MAX_CORES" by (simp_all add: max_cores_eval)
  with cl have s0: "cores (cgroups ctx' 0) = None" "pgroups ctx' 0 = None"
    and s1: "cores (cgroups ctx' 1) = None" "pgroups ctx' 1 = None"
    by blast+
  have ng2: "num_groups ctx' = 2" using ng by simp
  have rd1: "rdtmon_read sample_header
       (sample_library\<lparr>pqos_mon_poll := (\<lambda>p pg n. (PQOS_RETVAL_ERROR, pg, unat n))\<rparr>)
       (initial_world\<lparr>g_rdtmon := Some ctx'\<rparr>)
       = Some (Inl FAILURE, initial_world\<lparr>g_rdtmon := Some ctx', provider := 2\<rparr>)"
    by (simp add: rdtmon_read_def sample_library_def initial_world_def ng2 Let_def)
  have rd2: "rdtmon_read sample_header
       (sample_library\<lparr>pqos_mon_poll := (\<lambda>p pg n. (PQOS_RETVAL_OK, pg, unat n))\<rparr>)
       (initial_world\<lparr>g_rdtmon := Some ctx'\<rparr>) = None"
    by (simp add: rdtmon_read_def sample_library_def initial_world_def ng2 s0
                  Let_def max_cores_eval upt_rec [of 0 2])
  have ini: "\<exists>w. rdtmon_init sample_library (initial_world\<lparr>g_rdtmon := Some ctx'\<rparr>)
            = Some (Inr (), w) \<and> provider w = 2"
    by (simp add: rdtmon_init_def rdtmon_preinit_def sample_library_def initial_world_def ng2
                  Let_def max_cores_eval upt_rec [of 0 2] upt_rec [of "Suc 0" 2])
  have sib: "\<exists>ctx' h'.
     rdtmon_config_cgroups sample_header (Some (cores_item [''0-3'', ''abc'']))
       (\<lambda>k. True) sample_ctx = Some (Inl EINVAL, ctx', h') \<and>
     num_groups ctx' = 0"
    by (simp add: config_eval rdtmon_free_cgroups_simps)
  from r e' ng2 s0 s1 rd1 rd2 ini have
    "\<exists>ctx' h'.
     rdtmon_config_cgroups sample_header (Some (cores_item [''0-3'', ''2-5'']))
       (\<lambda>k. True) sample_ctx = Some (Inl EINVAL, ctx', h') \<and>
     num_groups ctx' = 2 \<and>
     cores (cgroups ctx' 0) = None \<and> cores (cgroups ctx' 1) = None \<and>
     pgroups ctx' 0 = None \<and> pgroups ctx' 1 = None \<and>
     rdtmon_read sample_header
       (sample_library\<lparr>pqos_mon_poll := (\<lambda>p pg n. (PQOS_RETVAL_ERROR, pg, unat n))\<rparr>)
       (initial_world\<lparr>g_rdtmon := Some ctx'\<rparr>)
       = Some (Inl FAILURE, initial_world\<lparr>g_rdtmon := Some ctx', provider := 2\<rparr>) \<and>
     rdtmon_read sample_header
       (sample_library\<lparr>pqos_mon_poll := (\<lambda>p pg n. (PQOS_RETVAL_OK, pg, unat n))\<rparr>)
       (initial_world\<lparr>g_rdtmon := Some ctx'\<rparr>) = None \<and>
     (\<exists>w. rdtmon_init sample_library (initial_world\<lparr>g_rdtmon := Some ctx'\<rparr>)
            = Some (Inr (), w) \<and> provider w = 2)"
    by simp
  then show ?thesis using sib by (rule conjI)
qed

section \<open>Default groups\<close>

text \<open>
  C4 does not hold of the source. On a topology of two cores with logical identifiers 0
  and 2 (core 1 is offline), the second default group is described as \<open>2\<close>, the logical
  identifier, but its core set is \<open>{1}\<close>, the position of the core in the topology: the
  source stores the loop counter \<open>i\<close> as the core, not \<open>cores[i].lcore\<close>.
\<close>

theorem C4_default_groups_offline_core:
  "\<exists>ctx' h'. rdtmon_default_cgroups (\<lambda>k. True)
                (zero_ctx\<lparr>pqos_cpu := Some \<lparr>cpu_cores = [\<lparr>lcore = 0\<rparr>, \<lparr>lcore = 2\<rparr>]\<rparr>\<rparr>)
              = Some (Inr 2, ctx', h') \<and>
            cgroups ctx' 0 = \<lparr>desc = Some ''0'', num_cores = 1, cores = Some [0], events = 0\<rparr> \<and>
            cgroups ctx' 1 = \<lparr>desc = Some ''2'', num_cores = 1, cores = Some [1], events = 0\<rparr>"
  by (simp add: rdtmon_default_cgroups_def ssnprintf_alloc_d_def printf_d_def cgroup_set_def
                malloc_def zero_ctx_def max_cores_eval Let_def)

end
